theory Spec2Isabelle
  imports Main "HOL-Library.Word" "HOL-Library.AList"
begin

section \<open>The fast-import emission engine of svn2git (src/repository.cpp)\<close>

text \<open>
  Byte arrays and strings are lists of characters. The source mixes \<open>QByteArray\<close> and
  \<open>QString\<close>; the conversions \<open>toUtf8\<close> and \<open>fromUtf8\<close> are the identity on the
  ASCII texts considered here. The C++ \<open>int\<close> counters are modelled as unbounded
  integers, which is exact as long as no counter reaches the ends of the 32-bit range
  (signed overflow is undefined in the source); the one place where the range is
  decided by the library, \<open>toInt\<close>, has the range check written out.
\<close>

subsection \<open>Library primitives used by the source\<close>

datatype error =
    AssertionFailed      \<comment> \<open>\<open>Q_ASSERT\<close> violated\<close>
  | Fatal                \<comment> \<open>\<open>qFatal\<close>\<close>
  | VectorOutOfRange     \<comment> \<open>\<open>QVector::last()\<close> or \<open>operator[]\<close> outside the vector\<close>
  | DivisionByZero       \<comment> \<open>\<open>%\<close> with a zero divisor\<close>

datatype severity = Debug | Warning | Critical

text \<open>A diagnostic of \<open>qDebug\<close>, \<open>qWarning\<close> or \<open>qCritical\<close>: its severity and the
  leading literal of its message (the values streamed into it are left out).\<close>

type_synonym diag = "severity \<times> string"

definition isSpace :: "char \<Rightarrow> bool" where
  "isSpace c = (c \<in> set [CHR 0x09, CHR ''\<newline>'', CHR 0x0B, CHR 0x0C, CHR 0x0D, CHR '' ''])"

definition isDigit :: "char \<Rightarrow> bool" where
  "isDigit c = (c \<in> set ''0123456789'')"

definition digitValue :: "char \<Rightarrow> int" where
  "digitValue c = of_char c - 48"

definition decimalValue :: "string \<Rightarrow> int" where
  "decimalValue ds = foldl (\<lambda>a c. 10 * a + digitValue c) 0 ds"

text \<open>\<open>QByteArray::trimmed\<close>: white space removed from both ends.\<close>

definition trimmed :: "string \<Rightarrow> string" where
  "trimmed s = rev (dropWhile isSpace (rev (dropWhile isSpace s)))"

text \<open>
  \<open>QString::toInt()\<close> in base 10: surrounding white space is ignored, a sign is
  allowed, the rest must be decimal digits and the value must fit an \<open>int\<close>; in every
  other case the result is 0.
\<close>

definition toInt :: "string \<Rightarrow> int" where
  "toInt s =
     (let t = trimmed s;
          neg = (t \<noteq> [] \<and> hd t = CHR ''-'');
          body = (if t \<noteq> [] \<and> (hd t = CHR ''-'' \<or> hd t = CHR ''+'') then tl t else t)
      in if body = [] \<or> \<not> list_all isDigit body then 0
         else if neg then (if decimalValue body \<le> 2 ^ 31 then - decimalValue body else 0)
         else (if decimalValue body < 2 ^ 31 then decimalValue body else 0))"

text \<open>The conversion of a \<open>QByteArray\<close> to a \<open>QString\<close> by the implicit
  constructor, or through its C string as in \<open>QString::fromUtf8(author)\<close>, stops at
  the first NUL byte (Qt 4).\<close>

definition fromAscii :: "string \<Rightarrow> string" where
  "fromAscii ba = takeWhile (\<lambda>c. c \<noteq> CHR 0x00) ba"

text \<open>The digits of a number that is not negative, in base 10 and in base 8.\<close>

function digits10 :: "int \<Rightarrow> string" where
  "digits10 n = (if n < 10 then [''0123456789'' ! nat n]
                 else digits10 (n div 10) @ [''0123456789'' ! nat (n mod 10)])"
  by pat_completeness auto
termination
  by (relation "measure nat") auto

function digits8 :: "int \<Rightarrow> string" where
  "digits8 n = (if n < 8 then [''01234567'' ! nat n]
                else digits8 (n div 8) @ [''01234567'' ! nat (n mod 8)])"
  by pat_completeness auto
termination
  by (relation "measure nat") auto

declare digits10.simps [simp del] digits8.simps [simp del]

text \<open>\<open>QByteArray::number(n)\<close>, base 10.\<close>

definition number :: "int \<Rightarrow> string" where
  "number n = (if n < 0 then CHR ''-'' # digits10 (- n) else digits10 n)"

text \<open>\<open>QByteArray::number(n, 8)\<close>: in a base other than 10 a negative value is printed
  as the unsigned 64-bit number with the same bits.\<close>

definition number8 :: "int \<Rightarrow> string" where
  "number8 n = digits8 (if n < 0 then n + 2 ^ 64 else n)"

text \<open>\<open>QIODevice::readLine\<close> on the unread rest of a file: the bytes up to and including
  the next newline (or up to the end), and what is left after them.\<close>

definition readLine :: "string \<Rightarrow> string \<times> string" where
  "readLine s =
     (case dropWhile (\<lambda>c. c \<noteq> CHR ''\<newline>'') s of
        [] \<Rightarrow> (s, [])
      | c # r \<Rightarrow> (takeWhile (\<lambda>c. c \<noteq> CHR ''\<newline>'') s @ [c], r))"

text \<open>\<open>indexOf(c)\<close>: the position of the first occurrence, \<open>None\<close> for the source's -1.\<close>

definition indexOf :: "char \<Rightarrow> string \<Rightarrow> nat option" where
  "indexOf c s = (if c \<in> set s then Some (length (takeWhile (\<lambda>d. d \<noteq> c) s)) else None)"

text \<open>\<open>startsWith("refs/")\<close> followed by \<open>prepend("refs/heads/")\<close>.\<close>

definition startsWith :: "string \<Rightarrow> string \<Rightarrow> bool" where
  "startsWith s p = (take (length p) s = p)"

definition branchRefOf :: "string \<Rightarrow> string" where
  "branchRefOf b = (if startsWith b ''refs/'' then b else ''refs/heads/'' @ b)"

text \<open>\<open>QVector::last()\<close> and \<open>QVector::operator[]\<close> assert that the element exists.\<close>

definition vlast :: "int list \<Rightarrow> error + int" where
  "vlast v = (if v = [] then Inl VectorOutOfRange else Inr (last v))"

definition vat :: "int list \<Rightarrow> nat \<Rightarrow> error + int" where
  "vat v i = (if i < length v then Inr (v ! i) else Inl VectorOutOfRange)"

text \<open>\<open>qUpperBound(container, value)\<close> of QtAlgorithms: a binary search over the
  \<open>n\<close> elements from index \<open>b\<close> on, whatever the order of the elements is.\<close>

function qUpperBound_loop :: "int list \<Rightarrow> int \<Rightarrow> nat \<Rightarrow> nat \<Rightarrow> nat" where
  "qUpperBound_loop v val b n =
     (if n > 0 then
        (let half = n div 2; middle = b + half
         in if val < v ! middle then qUpperBound_loop v val b half
            else qUpperBound_loop v val (middle + 1) (n - (half + 1)))
      else b)"
  by pat_completeness auto
termination
  by (relation "measure (\<lambda>(v, val, b, n). n)") auto

declare qUpperBound_loop.simps [simp del]

definition qUpperBound :: "int list \<Rightarrow> int \<Rightarrow> nat" where
  "qUpperBound v val = qUpperBound_loop v val 0 (length v)"

subsection \<open>The marks-file reader\<close>

text \<open>\<open>lastValidMark\<close>: the loop over the unread rest of the marks file, with the line
  number and \<open>prev_mark\<close>; the result is the returned mark and the diagnostics.\<close>

definition markOfLine :: "string \<Rightarrow> int" where
  "markOfLine line =
     (if hd line = CHR '':'' then
        (case indexOf CHR '' '' line of
           None \<Rightarrow> 0
         | Some sp \<Rightarrow> toInt (take (sp - 1) (drop 1 line)))
      else 0)"

function lastValidMark_loop :: "string \<Rightarrow> nat \<Rightarrow> int \<Rightarrow> int \<times> diag list" where
  "lastValidMark_loop rest lineno prev_mark =
     (if rest = [] then (prev_mark, [])
      else
        (let line = fromAscii (fst (readLine rest)); rest' = snd (readLine rest)
         in if line = [] then lastValidMark_loop rest' (lineno + 1) prev_mark
            else
              (let mark = markOfLine line
               in if mark = 0 then (0, [(Critical, ''marks file corrupt?'')])
                  else if mark = prev_mark then (0, [(Critical, ''marks file has duplicates'')])
                  else if mark < prev_mark then (0, [(Critical, ''marks file not sorted'')])
                  else if mark > prev_mark + 1 then (prev_mark, [])
                  else lastValidMark_loop rest' (lineno + 1) mark)))"
  by pat_completeness auto
termination
proof -
  have shorter: "length (snd (readLine s)) < length s" if "s \<noteq> []" for s
  proof (cases "dropWhile (\<lambda>c. c \<noteq> CHR ''\<newline>'') s")
    case Nil
    with that show ?thesis unfolding readLine_def by (simp del: dropWhile_eq_Nil_conv)
  next
    case (Cons c r)
    have "length (dropWhile (\<lambda>c. c \<noteq> CHR ''\<newline>'') s) \<le> length s"
      by (rule length_dropWhile_le)
    with Cons show ?thesis unfolding readLine_def by simp
  qed
  show ?thesis
    by (relation "measure (\<lambda>(rest, lineno, prev_mark). length rest)") (simp_all add: shorter)
qed

declare lastValidMark_loop.simps [simp del]

text \<open>The marks file is \<open>None\<close> when it cannot be opened.\<close>

definition lastValidMark :: "string option \<Rightarrow> int \<times> diag list" where
  "lastValidMark marksfile =
     (case marksfile of None \<Rightarrow> (0, []) | Some content \<Rightarrow> lastValidMark_loop content 0 0)"

subsection \<open>Data model\<close>

record Branch =
  created :: int
  commits :: "int list"
  marks :: "int list"

record AnnotatedTag =
  supportingRef :: string
  tag_svnprefix :: string
  tag_author :: string
  tag_log :: string
  dt :: "32 word"
  tag_revnum :: int

text \<open>
  The state of a \<open>FastImportRepository\<close>. The two \<open>QHash\<close> members are association
  lists with distinct keys; the order of the list stands for the iteration order of the
  hash, which Qt leaves open. \<open>running\<close> is \<open>fastImport.state() != QProcess::NotRunning\<close>,
  \<open>written\<close> collects the bytes handed to \<open>fastImport\<close> in the order of the calls,
  \<open>diags\<close> the diagnostics issued so far.
\<close>

record repository =
  branches :: "(string \<times> Branch) list"
  annotatedTags :: "(string \<times> AnnotatedTag) list"
  name :: string
  commitCount :: int
  outstandingTransactions :: int
  last_commit_mark :: int
  next_file_mark :: int
  processHasStarted :: bool
  running :: bool
  written :: string
  diags :: "diag list"

record transaction =
  branch :: string
  svnprefix :: string
  author :: string
  log :: string
  datetime :: "32 word"
  revnum :: int
  merges :: "int list"
  deletedFiles :: "string list"
  modifiedFiles :: string

text \<open>
  What the code reads from outside: the command-line options (\<open>commit_interval\<close> is
  the argument of the option when it is given) and whether waiting for the child to take
  the pending bytes fails.
\<close>

record env =
  dry_run :: bool
  add_metadata :: bool
  commit_interval :: "string option"
  write_fails :: bool

record files =
  logfile :: "string option"
  marksfile :: "string option"
  bkupfile :: "string option"

definition maxMark :: int where
  "maxMark = 2 ^ 20 - 1"

definition EXIT_SUCCESS :: int where
  "EXIT_SUCCESS = 0"

definition EXIT_FAILURE :: int where
  "EXIT_FAILURE = 1"

definition defaultBranch :: Branch where
  "defaultBranch = \<lparr>created = 0, commits = [], marks = []\<rparr>"

text \<open>\<open>branches[k]\<close>: the entry, inserted value-initialised when the key is new.\<close>

definition branchAt :: "repository \<Rightarrow> string \<Rightarrow> Branch \<times> repository" where
  "branchAt r k =
     (case map_of (branches r) k of
        Some b \<Rightarrow> (b, r)
      | None \<Rightarrow> (defaultBranch, r\<lparr>branches := branches r @ [(k, defaultBranch)]\<rparr>))"

text \<open>Writing through the reference \<open>Branch &br = branches[k]\<close>.\<close>

definition setBranch :: "repository \<Rightarrow> string \<Rightarrow> Branch \<Rightarrow> repository" where
  "setBranch r k b = r\<lparr>branches := AList.update k b (branches r)\<rparr>"

definition fiWrite :: "string \<Rightarrow> repository \<Rightarrow> repository" where
  "fiWrite bytes r = r\<lparr>written := written r @ bytes\<rparr>"

definition say :: "severity \<Rightarrow> string \<Rightarrow> repository \<Rightarrow> repository" where
  "say sev msg r = r\<lparr>diags := diags r @ [(sev, msg)]\<rparr>"

subsection \<open>Repository operations\<close>

text \<open>The constructor, from the rule's name and branch names. Creating the directory
  and the empty marks file is left out.\<close>

definition newRepository :: "string \<Rightarrow> string list \<Rightarrow> repository" where
  "newRepository rule_name rule_branches =
     (let r = \<lparr>branches = fold (\<lambda>n al. AList.update n defaultBranch al) rule_branches [],
                annotatedTags = [], name = rule_name, commitCount = 0,
                outstandingTransactions = 0, last_commit_mark = 0,
                next_file_mark = maxMark, processHasStarted = False, running = False,
                written = [], diags = []\<rparr>;
          (master, r1) = branchAt r ''master''
      in setBranch r1 ''master'' (master\<lparr>created := 1\<rparr>))"

definition reloadText :: "string \<times> Branch \<Rightarrow> string" where
  "reloadText kb =
     (if marks (snd kb) = [] \<or> last (marks (snd kb)) = 0 then []
      else ''reset '' @ branchRefOf (fst kb) @ ''\<newline>from :'' @ number (last (marks (snd kb)))
           @ ''\<newline>\<newline>progress Branch '' @ branchRefOf (fst kb) @ '' reloaded\<newline>'')"

definition reloadBranches :: "repository \<Rightarrow> repository" where
  "reloadBranches r = fiWrite (concat (map reloadText (branches r))) r"

definition startFastImport :: "repository \<Rightarrow> error + repository" where
  "startFastImport r =
     (if \<not> running r then
        (if processHasStarted r then Inl Fatal
         else Inr (reloadBranches (r\<lparr>processHasStarted := True, running := True\<rparr>)))
      else Inr r)"

definition closeFastImport :: "repository \<Rightarrow> repository" where
  "closeFastImport r =
     (let r1 = (if running r then (fiWrite ''checkpoint\<newline>'' r)\<lparr>running := False\<rparr> else r)
      in r1\<lparr>processHasStarted := False\<rparr>)"

text \<open>\<open>markFrom\<close>: the mark, the description (passed by reference) and the repository.\<close>

definition markFrom :: "string \<Rightarrow> int \<Rightarrow> string \<Rightarrow> repository \<Rightarrow> error + (int \<times> string \<times> repository)" where
  "markFrom branchFrom branchRevNum branchFromDesc r =
     (let (brFrom, r1) = branchAt r branchFrom
      in if created brFrom = 0 then Inr (- 1, branchFromDesc, r1)
         else if commits brFrom = [] then Inr (- 1, branchFromDesc, r1)
         else if branchRevNum = last (commits brFrom) then
           (case vlast (marks brFrom) of
              Inl e \<Rightarrow> Inl e
            | Inr m \<Rightarrow> Inr (m, branchFromDesc, r1))
         else
           (let it = qUpperBound (commits brFrom) branchRevNum
            in if it = 0 then Inr (0, branchFromDesc, r1)
               else
                 (let closestCommit = commits brFrom ! (it - 1);
                      desc = (if branchFromDesc \<noteq> [] then
                                branchFromDesc @ '' at r'' @ number branchRevNum
                                @ (if closestCommit \<noteq> branchRevNum
                                   then '' => r'' @ number closestCommit else [])
                              else branchFromDesc)
                  in case vat (marks brFrom) (it - 1) of
                       Inl e \<Rightarrow> Inl e
                     | Inr m \<Rightarrow> Inr (m, desc, r1))))"

definition resetBranch :: "string \<Rightarrow> int \<Rightarrow> int \<Rightarrow> string \<Rightarrow> string \<Rightarrow> repository \<Rightarrow> error + (int \<times> repository)" where
  "resetBranch bname svnrev mark resetTo comment r =
     (let branchRef = branchRefOf bname;
          (br, r1) = branchAt r bname
      in case (if created br \<noteq> 0 \<and> created br \<noteq> svnrev
               then (case vlast (marks br) of Inl e \<Rightarrow> Inl e | Inr m \<Rightarrow> Inr (m \<noteq> 0))
               else Inr False) of
           Inl e \<Rightarrow> Inl e
         | Inr backup \<Rightarrow>
             (let r2 = (if backup then
                          fiWrite (''reset '' @ ''refs/backups/r'' @ number svnrev @ drop 4 branchRef
                                   @ ''\<newline>from '' @ branchRef @ ''\<newline>\<newline>'')
                            (say Warning ''backing up branch'' r1)
                        else r1);
                  r3 = setBranch r2 bname
                         (br\<lparr>created := svnrev, commits := commits br @ [svnrev],
                             marks := marks br @ [mark]\<rparr>)
              in Inr (EXIT_SUCCESS,
                      fiWrite (''reset '' @ branchRef @ ''\<newline>from '' @ resetTo @ ''\<newline>\<newline>''
                               @ ''progress SVN r'' @ number svnrev @ '' branch '' @ bname
                               @ '' = :'' @ number mark @ '' # '' @ comment @ ''\<newline>\<newline>'') r3)))"

definition createBranch :: "string \<Rightarrow> int \<Rightarrow> string \<Rightarrow> int \<Rightarrow> repository \<Rightarrow> error + (int \<times> repository)" where
  "createBranch bname svnrev branchFrom branchRevNum r =
     (case startFastImport r of
        Inl e \<Rightarrow> Inl e
      | Inr r1 \<Rightarrow>
          (case markFrom branchFrom branchRevNum (''from branch '' @ branchFrom) r1 of
             Inl e \<Rightarrow> Inl e
           | Inr (mark, branchFromDesc, r2) \<Rightarrow>
               if mark = - 1 then
                 Inr (EXIT_FAILURE, say Critical ''is branching from branch'' r2)
               else
                 (let branchFromRef = (if mark = 0 then branchRefOf branchFrom
                                       else '':'' @ number mark);
                      desc = (if mark = 0 then branchFromDesc @ '', deleted/unknown''
                              else branchFromDesc);
                      r3 = (if mark = 0 then say Warning ''is branching but no exported commits exist'' r2
                            else r2)
                  in resetBranch bname svnrev mark branchFromRef desc
                       (say Debug ''Creating branch:'' r3))))"

definition null_sha :: string where
  "null_sha = replicate 40 CHR ''0''"

definition deleteBranch :: "string \<Rightarrow> int \<Rightarrow> repository \<Rightarrow> error + (int \<times> repository)" where
  "deleteBranch bname svnrev r =
     (case startFastImport r of
        Inl e \<Rightarrow> Inl e
      | Inr r1 \<Rightarrow> resetBranch bname svnrev 0 null_sha ''delete'' r1)"

definition optionArgument :: "string option \<Rightarrow> string \<Rightarrow> string" where
  "optionArgument arg dflt = (case arg of None \<Rightarrow> dflt | Some a \<Rightarrow> a)"

text \<open>
  \<open>newTransaction\<close>. The test \<open>++commitCount % interval == 0\<close> holds exactly when
  the interval divides the count, which is what \<open>mod\<close> decides for a divisor other
  than 0; a zero divisor is undefined in the source and an error here.
\<close>

definition newTransaction :: "env \<Rightarrow> string \<Rightarrow> string \<Rightarrow> int \<Rightarrow> repository \<Rightarrow> error + (transaction \<times> repository)" where
  "newTransaction e bname prefix svnrev r =
     (case startFastImport r of
        Inl err \<Rightarrow> Inl err
      | Inr r1 \<Rightarrow>
          (let r2 = (if map_of (branches r1) bname = None
                     then say Warning ''is not a known branch in repository'' r1 else r1);
               txn = \<lparr>branch = bname, svnprefix = prefix, author = [], log = [],
                      datetime = 0, revnum = svnrev, merges = [], deletedFiles = [],
                      modifiedFiles = []\<rparr>;
               interval = toInt (optionArgument (commit_interval e) ''10000'');
               r3 = r2\<lparr>commitCount := commitCount r2 + 1\<rparr>
           in if interval = 0 then Inl DivisionByZero
              else
                (let r4 = (if commitCount r3 mod interval = 0
                           then say Debug ''checkpoint!, marks file trunkated''
                                  (fiWrite ''checkpoint\<newline>'' r3)
                           else r3)
                 in Inr (txn, r4\<lparr>outstandingTransactions := outstandingTransactions r4 + 1\<rparr>))))"

definition forgetTransaction :: "repository \<Rightarrow> repository" where
  "forgetTransaction r =
     (let r1 = r\<lparr>outstandingTransactions := outstandingTransactions r - 1\<rparr>
      in if outstandingTransactions r1 = 0 then r1\<lparr>next_file_mark := maxMark\<rparr> else r1)"

definition createAnnotatedTag :: "string \<Rightarrow> string \<Rightarrow> int \<Rightarrow> string \<Rightarrow> 32 word \<Rightarrow> string \<Rightarrow> repository \<Rightarrow> repository" where
  "createAnnotatedTag ref prefix svnrev auth t lg r =
     (let tagName = (if startsWith ref ''refs/tags/'' then drop 10 ref else ref)
      in r\<lparr>annotatedTags := AList.update tagName
            \<lparr>supportingRef = ref, tag_svnprefix = prefix, tag_author = auth, tag_log = lg,
             dt = t, tag_revnum = svnrev\<rparr> (annotatedTags r)\<rparr>)"

subsection \<open>Transaction operations\<close>

definition setAuthor :: "string \<Rightarrow> transaction \<Rightarrow> transaction" where
  "setAuthor a t = t\<lparr>author := a\<rparr>"

definition setDateTime :: "32 word \<Rightarrow> transaction \<Rightarrow> transaction" where
  "setDateTime d t = t\<lparr>datetime := d\<rparr>"

definition setLog :: "string \<Rightarrow> transaction \<Rightarrow> transaction" where
  "setLog l t = t\<lparr>log := l\<rparr>"

text \<open>The destructor of a transaction.\<close>

definition destroyTransaction :: "repository \<Rightarrow> repository" where
  "destroyTransaction r = forgetTransaction r"

definition noteCopyFromBranch :: "string \<Rightarrow> int \<Rightarrow> repository \<times> transaction \<Rightarrow> error + (repository \<times> transaction)" where
  "noteCopyFromBranch branchFrom branchRevNum rt =
     (let r = fst rt; t = snd rt
      in if branch t = branchFrom then Inr (say Warning ''Cannot merge inside a branch'' r, t)
         else
           (case markFrom branchFrom branchRevNum [] r of
              Inl e \<Rightarrow> Inl e
            | Inr (mark, dummy, r1) \<Rightarrow>
                if dummy \<noteq> [] then Inl AssertionFailed
                else if mark = - 1 then
                  Inr (say Warning ''is copying from branch'' r1, t)
                else if mark = 0 then
                  Inr (say Warning ''Unknown revision r'' r1, t)
                else
                  (let r2 = say Warning ''has some files copied from'' r1
                   in if mark \<notin> set (merges t) then
                        Inr (say Debug ''adding as a merge point'' r2,
                             t\<lparr>merges := merges t @ [mark]\<rparr>)
                      else Inr (say Debug ''merge point already recorded'' r2, t))))"

definition deleteFile :: "string \<Rightarrow> transaction \<Rightarrow> transaction" where
  "deleteFile path t =
     t\<lparr>deletedFiles := deletedFiles t
          @ [if path \<noteq> [] \<and> last path = CHR ''/'' then butlast path else path]\<rparr>"

text \<open>\<open>addFile\<close> returns the importer's device; the caller then writes the body of the
  blob to it, which is \<open>writeBody\<close>.\<close>

definition addFile :: "env \<Rightarrow> string \<Rightarrow> int \<Rightarrow> int \<Rightarrow> repository \<times> transaction \<Rightarrow> error + (repository \<times> transaction)" where
  "addFile e path mode len rt =
     (let r = fst rt; t = snd rt;
          mark = next_file_mark r;
          r1 = r\<lparr>next_file_mark := next_file_mark r - 1\<rparr>
      in if \<not> (mark > last_commit_mark r1 + 1) then Inl AssertionFailed
         else
           (let t1 = t\<lparr>modifiedFiles := modifiedFiles t @ ''M '' @ number8 mode @ '' :''
                          @ number mark @ '' '' @ path @ ''\<newline>''\<rparr>;
                r2 = (if \<not> dry_run e then
                        fiWrite (''blob\<newline>mark :'' @ number mark @ ''\<newline>data '' @ number len
                                 @ ''\<newline>'') r1
                      else r1)
            in Inr (r2, t1)))"

definition writeBody :: "string \<Rightarrow> repository \<Rightarrow> repository" where
  "writeBody bytes r = fiWrite bytes r"

text \<open>The loop of \<open>commit\<close> over the merges, with the parent counter \<open>i\<close> and \<open>desc\<close>.\<close>

fun mergeLoop :: "int \<Rightarrow> int list \<Rightarrow> int \<Rightarrow> string \<Rightarrow> repository \<Rightarrow> string \<times> repository" where
  "mergeLoop parentmark [] i desc r = (desc, r)"
| "mergeLoop parentmark (m # ms) i desc r =
     (if m = parentmark then
        mergeLoop parentmark ms i desc (say Debug ''Skipping marking as a merge point'' r)
      else if i + 1 > 16 then (desc, say Warning ''too many merge parents'' r)
      else mergeLoop parentmark ms (i + 1) (desc @ '' :'' @ number m)
             (fiWrite (''merge'' @ '' :'' @ number m @ ''\<newline>'') r))"

definition deletionText :: "string list \<Rightarrow> string" where
  "deletionText dfs =
     (if [] \<in> set dfs then ''deleteall\<newline>''
      else concat (map (\<lambda>df. ''D '' @ df @ ''\<newline>'') dfs))"

definition commitMessage :: "env \<Rightarrow> transaction \<Rightarrow> string" where
  "commitMessage e t =
     (let message = (if log t \<noteq> [] \<and> last (log t) = CHR ''\<newline>'' then log t
                     else log t @ ''\<newline>'')
      in if add_metadata e then
           message @ ''\<newline>svn path='' @ svnprefix t @ ''; revision='' @ number (revnum t) @ ''\<newline>''
         else message)"

text \<open>The parent mark of a commit and the branch with the commit appended.\<close>

definition commitParent :: "transaction \<Rightarrow> int \<Rightarrow> repository \<Rightarrow> int \<times> repository" where
  "commitParent t mark r =
     (let (br, r2) = branchAt r (branch t);
          exists = (created br \<noteq> 0 \<and> marks br \<noteq> []);
          parentmark = (if exists then last (marks br) else 0);
          r3 = (if exists then r2 else say Warning ''doesn't exist at revision'' r2);
          br1 = (if exists then br else br\<lparr>created := revnum t\<rparr>)
      in (parentmark,
          setBranch r3 (branch t)
            (br1\<lparr>commits := commits br1 @ [revnum t], marks := marks br1 @ [mark]\<rparr>)))"

text \<open>What \<open>commit\<close> writes through the text stream. The stream takes the bytes of
  \<open>branchRef\<close> with their length; the author goes through its C string.\<close>

definition commitHeader :: "transaction \<Rightarrow> int \<Rightarrow> string \<Rightarrow> string" where
  "commitHeader t mark message =
     ''commit '' @ branchRefOf (branch t) @ ''\<newline>''
     @ ''mark :'' @ number mark @ ''\<newline>''
     @ ''committer '' @ fromAscii (author t) @ '' '' @ digits10 (uint (datetime t))
     @ '' -0000'' @ ''\<newline>''
     @ ''data '' @ number (int (length message)) @ ''\<newline>''"

text \<open>
  \<open>commit\<close>. Touching the process cache closes the importers of other repositories
  only and is left out; the \<open>printf\<close> to standard output is left out as well.
\<close>

definition commit :: "env \<Rightarrow> repository \<times> transaction \<Rightarrow> error + repository" where
  "commit e rt =
     (let r = fst rt; t = snd rt;
          mark = last_commit_mark r + 1;
          r1 = r\<lparr>last_commit_mark := mark\<rparr>
      in if \<not> (mark < next_file_mark r1 - 1) then Inl AssertionFailed
         else
           (let message = commitMessage e t;
                (parentmark, r4) = commitParent t mark r1;
                r5 = fiWrite (commitHeader t mark message) r4;
                r6 = fiWrite ''\<newline>'' (fiWrite message r5);
                (desc, r7) = mergeLoop parentmark (merges t) (if parentmark \<noteq> 0 then 1 else 0) [] r6;
                r8 = fiWrite (deletionText (deletedFiles t)) r7;
                r9 = fiWrite (modifiedFiles t) r8;
                r10 = fiWrite (''\<newline>progress SVN r'' @ number (revnum t) @ '' branch '' @ branch t
                               @ '' = :'' @ number mark
                               @ (if desc = [] then [] else '' # merge from'') @ desc
                               @ ''\<newline>\<newline>'') r9
            in if write_fails e then Inl Fatal else Inr r10))"

text \<open>\<open>finalizeTags\<close>, in the order of the tag table.\<close>

definition tagText :: "env \<Rightarrow> string \<times> AnnotatedTag \<Rightarrow> string" where
  "tagText e kt =
     (let tagName = fst kt; tag = snd kt;
          message0 = (if tag_log tag \<noteq> [] \<and> last (tag_log tag) = CHR ''\<newline>'' then tag_log tag
                      else tag_log tag @ ''\<newline>'');
          message = (if add_metadata e then
                       message0 @ ''\<newline>svn path='' @ tag_svnprefix tag @ ''; revision=''
                       @ number (tag_revnum tag) @ ''\<newline>''
                     else message0);
          branchRef = branchRefOf (supportingRef tag)
      in ''progress Creating annotated tag '' @ tagName @ '' from ref '' @ branchRef @ ''\<newline>''
         @ ''tag '' @ tagName @ ''\<newline>''
         @ ''from '' @ branchRef @ ''\<newline>''
         @ ''tagger '' @ fromAscii (tag_author tag) @ '' '' @ digits10 (uint (dt tag)) @ '' -0000'' @ ''\<newline>''
         @ ''data '' @ number (int (length message)) @ ''\<newline>''
         @ message @ ''\<newline>'')"

definition finalizeTags :: "env \<Rightarrow> repository \<Rightarrow> error + repository" where
  "finalizeTags e r =
     (if annotatedTags r = [] then Inr r
      else
        (case startFastImport r of
           Inl err \<Rightarrow> Inl err
         | Inr r1 \<Rightarrow>
             if write_fails e then Inl Fatal
             else Inr (fiWrite (concat (map (tagText e) (annotatedTags r1))) r1)))"

subsection \<open>Incremental resumption\<close>

text \<open>
  The regular expression \<open>progress SVN r(\d+) branch (.*) = :(\d+)\<close>, matched against
  the whole line. The first group is the run of digits after the \<open>r\<close>, the third the run
  of digits that ends the line, the second what lies between \<open>branch\<close> and the last
  \<open>= :\<close>; the result is the three captured texts.
\<close>

definition progressMatch :: "string \<Rightarrow> (string \<times> string \<times> string) option" where
  "progressMatch line =
     (let rest1 = drop 14 line;
          cap1 = takeWhile isDigit rest1;
          rest2 = dropWhile isDigit rest1;
          rest3 = drop 8 rest2;
          cap3 = rev (takeWhile isDigit (rev rest3));
          pre = take (length rest3 - length cap3) rest3;
          cap2 = take (length pre - 4) pre
      in if startsWith line ''progress SVN r'' \<and> cap1 \<noteq> [] \<and> startsWith rest2 '' branch ''
            \<and> cap3 \<noteq> [] \<and> 4 \<le> length pre \<and> drop (length pre - 4) pre = '' = :''
         then Some (cap1, cap2, cap3) else None)"

text \<open>A line of the log without its comment and the white space around it.\<close>

definition strippedLine :: "string \<Rightarrow> string" where
  "strippedLine raw =
     trimmed (case indexOf CHR ''#'' raw of None \<Rightarrow> raw | Some hash \<Rightarrow> take hash raw)"

text \<open>What the loop does with an entry it accepts: \<open>last_commit_mark\<close> and the vectors
  of the branch.\<close>

definition recordEntry :: "int \<Rightarrow> string \<Rightarrow> int \<Rightarrow> repository \<Rightarrow> repository" where
  "recordEntry svnrev bname mark r =
     (let r1 = (if last_commit_mark r < mark then r\<lparr>last_commit_mark := mark\<rparr> else r);
          br = fst (branchAt r1 bname);
          r2 = snd (branchAt r1 bname);
          br1 = (if created br = 0 \<or> mark = 0 \<or> marks br = []
                 then br\<lparr>created := svnrev\<rparr> else br)
      in setBranch r2 bname
           (br1\<lparr>commits := commits br1 @ [svnrev], marks := marks br1 @ [mark]\<rparr>))"

datatype scan =
    AtEnd int repository              \<comment> \<open>the loop ended: \<open>last_revnum\<close>\<close>
  | BeyondCutoff nat int repository   \<comment> \<open>\<open>goto beyond_cutoff\<close>: \<open>pos\<close> and \<open>cutoff\<close>\<close>

text \<open>The loop of \<open>setupIncremental\<close> over the unread rest of the log, which starts at
  file position \<open>filepos\<close>.\<close>

function setupIncremental_loop :: "string \<Rightarrow> nat \<Rightarrow> int \<Rightarrow> int \<Rightarrow> int \<Rightarrow> repository \<Rightarrow> scan" where
  "setupIncremental_loop rest filepos last_valid_mark cutoff last_revnum r =
     (if rest = [] then AtEnd last_revnum r
      else
        (let pos = filepos;
             raw = fst (readLine rest);
             rest' = snd (readLine rest);
             next = filepos + length raw;
             line = strippedLine raw
         in if line = [] then
              setupIncremental_loop rest' next last_valid_mark cutoff last_revnum r
            else
              (case progressMatch (fromAscii line) of
                 None \<Rightarrow> setupIncremental_loop rest' next last_valid_mark cutoff last_revnum r
               | Some (cap1, cap2, cap3) \<Rightarrow>
                   (let svnrev = toInt cap1; mark = toInt cap3
                    in if svnrev \<ge> cutoff then BeyondCutoff pos cutoff r
                       else
                         (let r1 = (if svnrev < last_revnum
                                    then say Warning ''revision numbers are not monotonic: '' r else r)
                          in if mark > last_valid_mark then
                               BeyondCutoff pos svnrev
                                 (say Warning ''unknown commit mark found: rewinding -- did you hit Ctrl-C?'' r1)
                             else
                               setupIncremental_loop rest' next last_valid_mark cutoff svnrev
                                 (recordEntry svnrev cap2 mark r1))))))"
  by pat_completeness auto
termination
proof -
  have shorter: "length (snd (readLine s)) < length s" if "s \<noteq> []" for s
  proof (cases "dropWhile (\<lambda>c. c \<noteq> CHR ''\<newline>'') s")
    case Nil
    with that show ?thesis unfolding readLine_def by (simp del: dropWhile_eq_Nil_conv)
  next
    case (Cons c r)
    have "length (dropWhile (\<lambda>c. c \<noteq> CHR ''\<newline>'') s) \<le> length s"
      by (rule length_dropWhile_le)
    with Cons show ?thesis unfolding readLine_def by simp
  qed
  show ?thesis
    by (relation "measure (\<lambda>(rest, filepos, lvm, cutoff, last_revnum, r). length rest)")
       (simp_all add: shorter)
qed

declare setupIncremental_loop.simps [simp del]

text \<open>\<open>setupIncremental\<close>: the returned revision, \<open>cutoff\<close> (passed by reference), the
  repository and the files.\<close>

definition setupIncremental :: "int \<Rightarrow> repository \<times> files \<Rightarrow> int \<times> int \<times> repository \<times> files" where
  "setupIncremental cutoff rf =
     (let r = fst rf; fs = snd rf
      in case logfile fs of
           None \<Rightarrow> (1, cutoff, r, fs)
         | Some content \<Rightarrow>
             (let last_valid_mark = fst (lastValidMark (marksfile fs));
                  r0 = r\<lparr>diags := diags r @ snd (lastValidMark (marksfile fs))\<rparr>
              in case setupIncremental_loop content 0 last_valid_mark cutoff 0 r0 of
                   AtEnd last_revnum r1 \<Rightarrow>
                     (let retval = last_revnum + 1
                      in (retval, cutoff, r1,
                          if retval = cutoff then fs\<lparr>bkupfile := None\<rparr> else fs))
                 | BeyondCutoff pos cutoff' r1 \<Rightarrow>
                     (cutoff', cutoff', say Debug ''truncating history to revision'' r1,
                      fs\<lparr>bkupfile := Some content, logfile := Some (take pos content)\<rparr>)))"

definition scanRepository :: "scan \<Rightarrow> repository" where
  "scanRepository s = (case s of AtEnd l r \<Rightarrow> r | BeyondCutoff p c r \<Rightarrow> r)"

definition restoreLog :: "files \<Rightarrow> files" where
  "restoreLog fs =
     (case bkupfile fs of
        None \<Rightarrow> fs
      | Some b \<Rightarrow> fs\<lparr>logfile := Some b, bkupfile := None\<rparr>)"

text \<open>The two vectors of every branch have the same length.\<close>

definition parallelVectors :: "repository \<Rightarrow> bool" where
  "parallelVectors r =
     list_all (\<lambda>kb. length (commits (snd kb)) = length (marks (snd kb))) (branches r)"

subsection \<open>The scenarios of the specification\<close>

text \<open>No dry run, no metadata, the default commit interval, a child that takes what is
  written.\<close>

definition env0 :: env where
  "env0 = \<lparr>dry_run = False, add_metadata = False, commit_interval = None, write_fails = False\<rparr>"

definition emitted :: "repository \<Rightarrow> repository \<Rightarrow> string" where
  "emitted r r' = drop (length (written r)) (written r')"

text \<open>S1: a new repository with the branch \<open>master\<close>, one transaction with one file
  (mode 0100644 is 33188), committed and destroyed.\<close>

definition scenarioS1 :: "error + repository" where
  "scenarioS1 =
     (case newTransaction env0 ''master'' ''/p'' 3 (newRepository ''R'' [''master'']) of
        Inl e \<Rightarrow> Inl e
      | Inr (t0, r1) \<Rightarrow>
          (case addFile env0 ''f'' 33188 5
                  (r1, setLog ''hello'' (setDateTime 1000 (setAuthor ''A <a@x>'' t0))) of
             Inl e \<Rightarrow> Inl e
           | Inr (r2, t2) \<Rightarrow>
               (case commit env0 (writeBody ''hello'' r2, t2) of
                  Inl e \<Rightarrow> Inl e
                | Inr r3 \<Rightarrow> Inr (destroyTransaction r3))))"

text \<open>S2: what \<open>createBranch("b", 5, "master", 3)\<close> writes in the state S1 leaves.\<close>

definition scenarioS2 :: "error + string" where
  "scenarioS2 =
     (case scenarioS1 of
        Inl e \<Rightarrow> Inl e
      | Inr r \<Rightarrow>
          (case createBranch ''b'' 5 ''master'' 3 r of
             Inl e \<Rightarrow> Inl e
           | Inr (status, r') \<Rightarrow> Inr (emitted r r')))"

text \<open>S5: a log of two entries and a marks file that knows the first mark only.\<close>

definition logS5 :: string where
  "logS5 = ''progress SVN r1 branch master = :1\<newline>progress SVN r2 branch master = :2\<newline>''"

definition filesS5 :: files where
  "filesS5 = \<lparr>logfile = Some logS5,
              marksfile = Some '':1 0123456789abcdef0123456789abcdef01234567\<newline>'',
              bkupfile = None\<rparr>"

text \<open>The state and the transaction of S1 before the file is added, and after.\<close>

definition repoS1 :: repository where
  "repoS1 = snd (projr (newTransaction env0 ''master'' ''/p'' 3 (newRepository ''R'' [''master''])))"

definition txnS1 :: transaction where
  "txnS1 = setLog ''hello'' (setDateTime 1000 (setAuthor ''A <a@x>''
             (fst (projr (newTransaction env0 ''master'' ''/p'' 3 (newRepository ''R'' [''master''])))))) "

definition repoS1_file :: repository where
  "repoS1_file = fst (projr (addFile env0 ''f'' 33188 5 (repoS1, txnS1)))"

definition txnS1_file :: transaction where
  "txnS1_file = snd (projr (addFile env0 ''f'' 33188 5 (repoS1, txnS1)))"

text \<open>A repository with one branch of three commits.\<close>

definition repoTrunk :: repository where
  "repoTrunk = (newRepository ''R'' [])\<lparr>branches :=
     [(''trunk'', \<lparr>created = 1, commits = [2, 5, 9], marks = [1, 2, 3]\<rparr>)]\<rparr>"

text \<open>The result of \<open>setupIncremental\<close> with cutoff 100 in S5.\<close>

definition resumeS5 :: "int \<times> int \<times> repository \<times> files" where
  "resumeS5 = setupIncremental 100 (newRepository ''R'' [''master''], filesS5)"

text \<open>Two transactions on master, each committed, with a commit interval of 2: what the
  second transaction writes before its \<open>commit\<close> is called (by \<open>newTransaction\<close>,
  \<open>addFile\<close> and the body of the file), and what its \<open>commit\<close> writes.\<close>

definition envInterval2 :: env where
  "envInterval2 = env0\<lparr>commit_interval := Some ''2''\<rparr>"

definition scenarioCheckpoint :: "error + (string \<times> string)" where
  "scenarioCheckpoint =
     (case newTransaction envInterval2 ''master'' ''/p'' 1 (newRepository ''R'' [''master'']) of
        Inl e \<Rightarrow> Inl e
      | Inr (t1, r1) \<Rightarrow>
          (case commit envInterval2 (r1, setLog ''one'' t1) of
             Inl e \<Rightarrow> Inl e
           | Inr r2 \<Rightarrow>
               (case newTransaction envInterval2 ''master'' ''/p'' 2 (destroyTransaction r2) of
                  Inl e \<Rightarrow> Inl e
                | Inr (t2, r3) \<Rightarrow>
                    (case addFile envInterval2 ''f'' 33188 1 (r3, setLog ''two'' t2) of
                       Inl e \<Rightarrow> Inl e
                     | Inr (r4, t4) \<Rightarrow>
                         (case commit envInterval2 (writeBody ''x'' r4, t4) of
                            Inl e \<Rightarrow> Inl e
                          | Inr r5 \<Rightarrow>
                              Inr (emitted (destroyTransaction r2) (writeBody ''x'' r4),
                                   emitted (writeBody ''x'' r4) r5))))))"

text \<open>A transaction on master in the state S1 leaves, with eighteen merges: the first is
  the mark of the parent, seventeen others follow. The repository after its
  \<open>commit\<close>.\<close>

definition txnManyMerges :: transaction where
  "txnManyMerges = \<lparr>branch = ''master'', svnprefix = ''/p'', author = ''A <a@x>'', log = ''m'',
     datetime = 1000, revnum = 4,
     merges = [1, 2, 3, 4, 5, 6, 7, 8, 9, 10, 11, 12, 13, 14, 15, 16, 17, 18],
     deletedFiles = [], modifiedFiles = []\<rparr>"

definition repoManyMerges :: repository where
  "repoManyMerges = projr (commit env0 (projr scenarioS1, txnManyMerges))"

section \<open>Properties\<close>

subsection \<open>Auxiliary facts\<close>

lemma readLine_shorter: "s \<noteq> [] \<Longrightarrow> length (snd (readLine s)) < length s"
proof (cases "dropWhile (\<lambda>c. c \<noteq> CHR ''\<newline>'') s")
  case Nil
  assume "s \<noteq> []"
  with Nil show ?thesis unfolding readLine_def by (simp del: dropWhile_eq_Nil_conv)
next
  case (Cons c r)
  have "length (dropWhile (\<lambda>c. c \<noteq> CHR ''\<newline>'') s) \<le> length s"
    by (rule length_dropWhile_le)
  with Cons show ?thesis unfolding readLine_def by simp
qed

lemma loop_end: "setupIncremental_loop [] pos lvm cutoff last_revnum r = AtEnd last_revnum r"
  by (simp add: setupIncremental_loop.simps)

lemma loop_skip:
  "rest \<noteq> [] \<Longrightarrow>
   strippedLine (fst (readLine rest)) = []
     \<or> progressMatch (fromAscii (strippedLine (fst (readLine rest)))) = None \<Longrightarrow>
   setupIncremental_loop rest pos lvm cutoff last_revnum r
     = setupIncremental_loop (snd (readLine rest)) (pos + length (fst (readLine rest)))
         lvm cutoff last_revnum r"
  by (subst setupIncremental_loop.simps) (auto simp: Let_def)

lemma loop_beyond:
  "rest \<noteq> [] \<Longrightarrow> strippedLine (fst (readLine rest)) \<noteq> [] \<Longrightarrow>
   progressMatch (fromAscii (strippedLine (fst (readLine rest)))) = Some (cap1, cap2, cap3) \<Longrightarrow>
   toInt cap1 \<ge> cutoff \<Longrightarrow>
   setupIncremental_loop rest pos lvm cutoff last_revnum r = BeyondCutoff pos cutoff r"
  by (subst setupIncremental_loop.simps) (simp add: Let_def)

lemma loop_rewind:
  "rest \<noteq> [] \<Longrightarrow> strippedLine (fst (readLine rest)) \<noteq> [] \<Longrightarrow>
   progressMatch (fromAscii (strippedLine (fst (readLine rest)))) = Some (cap1, cap2, cap3) \<Longrightarrow>
   toInt cap1 < cutoff \<Longrightarrow> toInt cap3 > lvm \<Longrightarrow>
   setupIncremental_loop rest pos lvm cutoff last_revnum r
     = BeyondCutoff pos (toInt cap1)
         (say Warning ''unknown commit mark found: rewinding -- did you hit Ctrl-C?''
            (if toInt cap1 < last_revnum
             then say Warning ''revision numbers are not monotonic: '' r else r))"
  by (subst setupIncremental_loop.simps) (simp add: Let_def)

lemma loop_accept:
  "rest \<noteq> [] \<Longrightarrow> strippedLine (fst (readLine rest)) \<noteq> [] \<Longrightarrow>
   progressMatch (fromAscii (strippedLine (fst (readLine rest)))) = Some (cap1, cap2, cap3) \<Longrightarrow>
   toInt cap1 < cutoff \<Longrightarrow> toInt cap3 \<le> lvm \<Longrightarrow>
   setupIncremental_loop rest pos lvm cutoff last_revnum r
     = setupIncremental_loop (snd (readLine rest)) (pos + length (fst (readLine rest)))
         lvm cutoff (toInt cap1)
         (recordEntry (toInt cap1) cap2 (toInt cap3)
            (if toInt cap1 < last_revnum
             then say Warning ''revision numbers are not monotonic: '' r else r))"
  by (subst setupIncremental_loop.simps) (simp add: Let_def)

lemma nfm_recordEntry: "next_file_mark (recordEntry n b m r) = next_file_mark r"
  by (simp add: recordEntry_def Let_def setBranch_def branchAt_def split: option.splits)

lemma nfm_setupIncremental_loop:
  "next_file_mark (scanRepository (setupIncremental_loop rest pos lvm cutoff last_revnum r))
     = next_file_mark r"
proof (induction "length rest" arbitrary: rest pos last_revnum r rule: less_induct)
  case less
  show ?case
  proof (cases "rest = []")
    case True
    then show ?thesis by (simp add: loop_end scanRepository_def)
  next
    case ne: False
    note IH = less.hyps [OF readLine_shorter [OF ne]]
    show ?thesis
    proof (cases "strippedLine (fst (readLine rest)) = []
        \<or> progressMatch (fromAscii (strippedLine (fst (readLine rest)))) = None")
      case True
      show ?thesis unfolding loop_skip [OF ne True] by (rule IH)
    next
      case False
      then obtain cap1 cap2 cap3 where
        l: "strippedLine (fst (readLine rest)) \<noteq> []" and
        m: "progressMatch (fromAscii (strippedLine (fst (readLine rest)))) = Some (cap1, cap2, cap3)"
        by (cases "progressMatch (fromAscii (strippedLine (fst (readLine rest))))") auto
      consider "toInt cap1 \<ge> cutoff" | "toInt cap1 < cutoff" "toInt cap3 > lvm"
        | "toInt cap1 < cutoff" "toInt cap3 \<le> lvm" by linarith
      then show ?thesis
      proof cases
        case 1
        show ?thesis unfolding loop_beyond [OF ne l m 1] by (simp add: scanRepository_def)
      next
        case 2
        show ?thesis unfolding loop_rewind [OF ne l m 2]
          by (simp add: scanRepository_def say_def)
      next
        case 3
        show ?thesis unfolding loop_accept [OF ne l m 3]
          by (simp add: IH nfm_recordEntry say_def)
      qed
    qed
  qed
qed

lemma nfm_setupIncremental:
  "next_file_mark (fst (snd (snd (setupIncremental cutoff (r, fs))))) = next_file_mark r"
proof (cases "logfile fs")
  case None
  then show ?thesis by (simp add: setupIncremental_def)
next
  case (Some content)
  let ?r0 = "r\<lparr>diags := diags r @ snd (lastValidMark (marksfile fs))\<rparr>"
  let ?s = "setupIncremental_loop content 0 (fst (lastValidMark (marksfile fs))) cutoff 0 ?r0"
  have "next_file_mark (scanRepository ?s) = next_file_mark r"
    by (simp add: nfm_setupIncremental_loop)
  then show ?thesis
    by (cases ?s) (simp_all add: setupIncremental_def Some Let_def scanRepository_def say_def)
qed

lemma nfm_branchAt: "next_file_mark (snd (branchAt r k)) = next_file_mark r"
  by (simp add: branchAt_def split: option.splits)

lemma nfm_startFastImport:
  "startFastImport r = Inr r1 \<Longrightarrow> next_file_mark r1 = next_file_mark r"
  by (auto simp: startFastImport_def reloadBranches_def fiWrite_def split: if_splits)

lemma nfm_markFrom:
  "markFrom f n d r = Inr (m, d', r') \<Longrightarrow> next_file_mark r' = next_file_mark r"
  using nfm_branchAt [of r f]
  by (auto simp: markFrom_def Let_def split: prod.splits if_splits sum.splits)

lemma nfm_resetBranch:
  "resetBranch b n m t c r = Inr (st, r') \<Longrightarrow> next_file_mark r' = next_file_mark r"
  using nfm_branchAt [of r b]
  by (auto simp: resetBranch_def Let_def setBranch_def fiWrite_def say_def
      split: prod.splits if_splits sum.splits)

lemma nfm_createBranch:
  "createBranch b n f fn r = Inr (st, r') \<Longrightarrow> next_file_mark r' = next_file_mark r"
  by (auto simp: createBranch_def Let_def say_def
      split: prod.splits if_splits sum.splits
      dest!: nfm_startFastImport nfm_markFrom nfm_resetBranch)

lemma nfm_deleteBranch:
  "deleteBranch b n r = Inr (st, r') \<Longrightarrow> next_file_mark r' = next_file_mark r"
  by (auto simp: deleteBranch_def split: sum.splits
      dest!: nfm_startFastImport nfm_resetBranch)

lemma nfm_newTransaction:
  "newTransaction e b p n r = Inr (t, r') \<Longrightarrow> next_file_mark r' = next_file_mark r"
  by (auto simp: newTransaction_def Let_def say_def fiWrite_def
      split: sum.splits if_splits dest!: nfm_startFastImport)

lemma nfm_noteCopyFromBranch:
  "noteCopyFromBranch f n (r, t) = Inr (r', t') \<Longrightarrow> next_file_mark r' = next_file_mark r"
  by (auto simp: noteCopyFromBranch_def Let_def say_def
      split: sum.splits if_splits prod.splits dest!: nfm_markFrom)

lemma nfm_mergeLoop: "next_file_mark (snd (mergeLoop p ms i desc r)) = next_file_mark r"
  by (induction ms arbitrary: i desc r) (simp_all add: say_def fiWrite_def)

lemma lcm_mergeLoop: "last_commit_mark (snd (mergeLoop p ms i desc r)) = last_commit_mark r"
  by (induction ms arbitrary: i desc r) (simp_all add: say_def fiWrite_def)

lemma lcm_branchAt: "last_commit_mark (snd (branchAt r k)) = last_commit_mark r"
  by (simp add: branchAt_def split: option.splits)

lemma branchAt_frame: "(snd (branchAt r k))\<lparr>branches := x\<rparr> = r\<lparr>branches := x\<rparr>"
  by (simp add: branchAt_def split: option.splits)

lemma commitParent_frame:
  "(snd (commitParent t m r))\<lparr>branches := x, diags := d\<rparr> = r\<lparr>branches := x, diags := d\<rparr>"
proof -
  obtain br r2 where at: "branchAt r (branch t) = (br, r2)"
    by (cases "branchAt r (branch t)")
  have "r2\<lparr>branches := y\<rparr> = r\<lparr>branches := y\<rparr>" for y
    using branchAt_frame [where r = r and k = "branch t" and x = y] at by simp
  then show ?thesis
    by (simp add: commitParent_def at Let_def setBranch_def say_def)
qed

lemma commitParent_fields:
  "next_file_mark (snd (commitParent t m r)) = next_file_mark r"
  "last_commit_mark (snd (commitParent t m r)) = last_commit_mark r"
  "commitCount (snd (commitParent t m r)) = commitCount r"
  "written (snd (commitParent t m r)) = written r"
  using arg_cong [OF commitParent_frame [where t = t and m = m and r = r and x = "[]" and d = "[]"],
      of next_file_mark]
    arg_cong [OF commitParent_frame [where t = t and m = m and r = r and x = "[]" and d = "[]"],
      of last_commit_mark]
    arg_cong [OF commitParent_frame [where t = t and m = m and r = r and x = "[]" and d = "[]"],
      of commitCount]
    arg_cong [OF commitParent_frame [where t = t and m = m and r = r and x = "[]" and d = "[]"],
      of written]
  by simp_all

lemma commit_marks:
  "commit e (r, t) = Inr r' \<Longrightarrow>
     last_commit_mark r' = last_commit_mark r + 1 \<and> next_file_mark r' = next_file_mark r
     \<and> last_commit_mark r + 1 < next_file_mark r - 1"
  by (auto simp: commit_def Let_def case_prod_beta fiWrite_def
      nfm_mergeLoop lcm_mergeLoop commitParent_fields split: if_splits)

lemma commit_assert:
  "\<not> last_commit_mark r + 1 < next_file_mark r - 1 \<Longrightarrow> commit e (r, t) = Inl AssertionFailed"
  by (simp add: commit_def Let_def)

lemma addFile_marks:
  "addFile e path mode len (r, t) = Inr (r', t') \<Longrightarrow>
     next_file_mark r > last_commit_mark r + 1 \<and> next_file_mark r' = next_file_mark r - 1
     \<and> last_commit_mark r' = last_commit_mark r"
  by (auto simp: addFile_def Let_def fiWrite_def split: if_splits)

lemma addFile_assert:
  "(addFile e path mode len (r, t) = Inl err)
     = (err = AssertionFailed \<and> \<not> next_file_mark r > last_commit_mark r + 1)"
  by (auto simp: addFile_def Let_def fiWrite_def split: if_splits)

lemma forgetTransaction_marks:
  "outstandingTransactions (forgetTransaction r) = outstandingTransactions r - 1
   \<and> next_file_mark (forgetTransaction r)
       = (if outstandingTransactions r - 1 = 0 then maxMark else next_file_mark r)"
  by (simp add: forgetTransaction_def Let_def)

lemma nfm_finalizeTags:
  "finalizeTags e r = Inr r' \<Longrightarrow> next_file_mark r' = next_file_mark r"
  by (auto simp: finalizeTags_def fiWrite_def split: if_splits sum.splits
      dest!: nfm_startFastImport)

lemma nfm_simple:
  "next_file_mark (closeFastImport r) = next_file_mark r"
  "next_file_mark (createAnnotatedTag ref p n a d l r) = next_file_mark r"
  "next_file_mark (writeBody bytes r) = next_file_mark r"
  "next_file_mark (reloadBranches r) = next_file_mark r"
  by (simp_all add: closeFastImport_def createAnnotatedTag_def writeBody_def reloadBranches_def
      fiWrite_def Let_def)

lemma mergeLoop_frame:
  "(snd (mergeLoop p ms i desc r))\<lparr>written := w, diags := d\<rparr> = r\<lparr>written := w, diags := d\<rparr>"
  by (induction ms arbitrary: i desc r) (simp_all add: say_def fiWrite_def)

lemma mergeLoop_general:
  "i \<le> 16 \<Longrightarrow>
   fst (mergeLoop p ms i desc r)
     = desc @ concat (map (\<lambda>m. '' :'' @ number m) (take (nat (16 - i)) (filter (\<lambda>m. m \<noteq> p) ms)))
   \<and> written (snd (mergeLoop p ms i desc r))
     = written r @ concat (map (\<lambda>m. ''merge :'' @ number m @ ''\<newline>'')
                        (take (nat (16 - i)) (filter (\<lambda>m. m \<noteq> p) ms)))
   \<and> filter (\<lambda>d. fst d = Warning) (diags (snd (mergeLoop p ms i desc r)))
       = filter (\<lambda>d. fst d = Warning) (diags r)
         @ (if int (length (filter (\<lambda>m. m \<noteq> p) ms)) > 16 - i
            then [(Warning, ''too many merge parents'')] else [])"
proof (induction ms arbitrary: i desc r)
  case Nil
  then show ?case by simp
next
  case (Cons m ms)
  show ?case
  proof (cases "m = p")
    case True
    with Cons.IH [OF Cons.prems, of desc "say Debug ''Skipping marking as a merge point'' r"]
    show ?thesis by (simp add: say_def)
  next
    case neq: False
    show ?thesis
    proof (cases "i + 1 > 16")
      case True
      with Cons.prems have "i = 16" by simp
      with neq show ?thesis by (simp add: say_def)
    next
      case False
      then have le: "i + 1 \<le> 16" by simp
      have tk: "nat (16 - i) = Suc (nat (16 - (i + 1)))" using le by simp
      from neq False Cons.IH [OF le, of "desc @ '' :'' @ number m" "fiWrite (''merge'' @ '' :'' @ number m @ ''\<newline>'') r"]
      show ?thesis
        by (simp add: fiWrite_def tk)
    qed
  qed
qed

lemma qUpperBound_loop_range:
  "b \<le> qUpperBound_loop v val b n \<and> qUpperBound_loop v val b n \<le> b + n"
proof (induction v val b n rule: qUpperBound_loop.induct)
  case (1 v val b n)
  show ?case
  proof (cases "n > 0")
    case False
    then show ?thesis by (simp add: qUpperBound_loop.simps)
  next
    case pos: True
    show ?thesis
    proof (cases "val < v ! (b + n div 2)")
      case True
      then have step: "qUpperBound_loop v val b n = qUpperBound_loop v val b (n div 2)"
        using pos by (subst qUpperBound_loop.simps) (simp add: Let_def)
      from "1.IH"(1) [OF pos refl refl True] div_le_dividend [of n 2] show ?thesis
        unfolding step by linarith
    next
      case False
      then have step: "qUpperBound_loop v val b n
          = qUpperBound_loop v val (b + n div 2 + 1) (n - (n div 2 + 1))"
        using pos by (subst qUpperBound_loop.simps) (simp add: Let_def)
      from "1.IH"(2) [OF pos refl refl False] pos show ?thesis
        unfolding step by simp
    qed
  qed
qed

lemma qUpperBound_loop_sorted:
  "sorted v \<Longrightarrow> b + n \<le> length v \<Longrightarrow>
   (\<forall>i<b. v ! i \<le> val) \<Longrightarrow> (\<forall>i. b + n \<le> i \<and> i < length v \<longrightarrow> val < v ! i) \<Longrightarrow>
   (\<forall>i<qUpperBound_loop v val b n. v ! i \<le> val)
   \<and> (\<forall>i. qUpperBound_loop v val b n \<le> i \<and> i < length v \<longrightarrow> val < v ! i)"
proof (induction v val b n rule: qUpperBound_loop.induct)
  case (1 v val b n)
  show ?case
  proof (cases "n > 0")
    case False
    with "1.prems" show ?thesis by (simp add: qUpperBound_loop.simps)
  next
    case pos: True
    let ?mid = "b + n div 2"
    have mid: "?mid < length v" using pos "1.prems"(2) by simp
    show ?thesis
    proof (cases "val < v ! ?mid")
      case True
      have up: "\<forall>i. b + n div 2 \<le> i \<and> i < length v \<longrightarrow> val < v ! i"
      proof (intro allI impI)
        fix i assume i: "b + n div 2 \<le> i \<and> i < length v"
        with "1.prems"(1) have "v ! ?mid \<le> v ! i" by (simp add: sorted_nth_mono)
        with True show "val < v ! i" by simp
      qed
      have le: "b + n div 2 \<le> length v" using mid by simp
      have step: "qUpperBound_loop v val b n = qUpperBound_loop v val b (n div 2)"
        using pos True by (subst qUpperBound_loop.simps) (simp add: Let_def)
      from "1.IH"(1) [OF pos refl refl True "1.prems"(1) le "1.prems"(3) up]
      show ?thesis unfolding step .
    next
      case False
      have low: "\<forall>i<?mid + 1. v ! i \<le> val"
      proof (intro allI impI)
        fix i assume "i < ?mid + 1"
        then have "i \<le> ?mid" by simp
        with "1.prems"(1) mid have "v ! i \<le> v ! ?mid" by (simp add: sorted_nth_mono)
        with False show "v ! i \<le> val" by simp
      qed
      have eq: "?mid + 1 + (n - (n div 2 + 1)) = b + n" using pos by simp
      have le: "?mid + 1 + (n - (n div 2 + 1)) \<le> length v" using eq "1.prems"(2) by simp
      have up: "\<forall>i. ?mid + 1 + (n - (n div 2 + 1)) \<le> i \<and> i < length v \<longrightarrow> val < v ! i"
        using eq "1.prems"(4) by simp
      have step: "qUpperBound_loop v val b n
          = qUpperBound_loop v val (b + n div 2 + 1) (n - (n div 2 + 1))"
        using pos False by (subst qUpperBound_loop.simps) (simp add: Let_def)
      from "1.IH"(2) [OF pos refl refl False "1.prems"(1) le low up]
      show ?thesis unfolding step .
    qed
  qed
qed

lemma qUpperBound_le: "qUpperBound v val \<le> length v"
  using qUpperBound_loop_range [of 0 v val "length v"] by (simp add: qUpperBound_def)

lemma qUpperBound_sorted:
  "sorted v \<Longrightarrow>
   (\<forall>i<qUpperBound v val. v ! i \<le> val)
   \<and> (\<forall>i. qUpperBound v val \<le> i \<and> i < length v \<longrightarrow> val < v ! i)"
  using qUpperBound_loop_sorted [of v 0 "length v" val] by (simp add: qUpperBound_def)


lemma commitCount_mergeLoop: "commitCount (snd (mergeLoop p ms i desc r)) = commitCount r"
  by (induction ms arbitrary: i desc r) (simp_all add: say_def fiWrite_def)

lemma written_mergeLoop: "\<exists>x. written (snd (mergeLoop p ms i desc r)) = written r @ x"
proof (induction ms arbitrary: i desc r)
  case Nil
  show ?case by simp
next
  case (Cons m ms)
  show ?case
  proof (cases "m = p")
    case True
    with Cons [of i desc "say Debug ''Skipping marking as a merge point'' r"]
    show ?thesis by (simp add: say_def)
  next
    case neq: False
    show ?thesis
    proof (cases "i + 1 > 16")
      case True
      with neq show ?thesis by (simp add: say_def)
    next
      case False
      from Cons [of "i + 1" "desc @ '' :'' @ number m"
          "fiWrite (''merge'' @ '' :'' @ number m @ ''\<newline>'') r"]
      obtain x where "written (snd (mergeLoop p ms (i + 1) (desc @ '' :'' @ number m)
          (fiWrite (''merge'' @ '' :'' @ number m @ ''\<newline>'') r)))
          = written (fiWrite (''merge'' @ '' :'' @ number m @ ''\<newline>'') r) @ x"
        by blast
      with neq False show ?thesis by (simp add: fiWrite_def)
    qed
  qed
qed

lemma fiWrite_fields:
  "written (fiWrite b r) = written r @ b"
  "commitCount (fiWrite b r) = commitCount r"
  by (simp_all add: fiWrite_def)

lemma commit_written:
  "commit e (r, t) = Inr r' \<Longrightarrow>
     commitCount r' = commitCount r \<and> (\<exists>x. written r' = written r @ ''commit '' @ x)"
proof -
  assume c: "commit e (r, t) = Inr r'"
  define m where "m = last_commit_mark r + 1"
  define r1 where "r1 = r\<lparr>last_commit_mark := m\<rparr>"
  define p where "p = fst (commitParent t m r1)"
  define r6 where "r6 = fiWrite ''\<newline>'' (fiWrite (commitMessage e t)
               (fiWrite (commitHeader t m (commitMessage e t)) (snd (commitParent t m r1))))"
  define ml where "ml = mergeLoop p (merges t) (if p \<noteq> 0 then 1 else 0) [] r6"
  obtain x where x: "written (snd ml) = written r6 @ x"
    unfolding ml_def using written_mergeLoop by blast
  obtain h where h: "commitHeader t m (commitMessage e t) = ''commit '' @ h"
    by (simp add: commitHeader_def)
  have w6: "written r6 = written r @ ''commit '' @ h @ commitMessage e t @ ''\<newline>''"
    by (simp add: r6_def r1_def fiWrite_fields commitParent_fields h)
  have c6: "commitCount r6 = commitCount r"
    by (simp add: r6_def r1_def fiWrite_fields commitParent_fields)
  have cm: "commitCount (snd ml) = commitCount r"
    by (simp add: ml_def commitCount_mergeLoop c6)
  from c have r': "r' = fiWrite (''\<newline>progress SVN r'' @ number (revnum t) @ '' branch '' @ branch t
                               @ '' = :'' @ number m
                               @ (if fst ml = [] then [] else '' # merge from'') @ fst ml
                               @ ''\<newline>\<newline>'')
                    (fiWrite (modifiedFiles t) (fiWrite (deletionText (deletedFiles t)) (snd ml)))"
    by (simp add: commit_def Let_def case_prod_beta ml_def r6_def p_def r1_def m_def
        split: if_splits)
  have "commitCount r' = commitCount r"
    unfolding r' by (simp add: fiWrite_fields cm)
  moreover have "\<exists>y. written r' = written r @ ''commit '' @ y"
    unfolding r' by (simp add: fiWrite_fields x w6)
  ultimately show ?thesis by blast
qed

lemma commitCount_startFastImport:
  "startFastImport r = Inr r1 \<Longrightarrow> commitCount r1 = commitCount r"
  by (auto simp: startFastImport_def reloadBranches_def fiWrite_def split: if_splits)

lemma map_of_snoc:
  "map_of al k = None \<Longrightarrow> map_of (al @ [(k, v)]) = (map_of al)(k \<mapsto> v)"
  by (rule ext) (simp add: map_add_def split: option.splits)

lemma startFastImport_fields:
  "startFastImport r = Inr r1 \<Longrightarrow>
     branches r1 = branches r \<and> annotatedTags r1 = annotatedTags r
     \<and> commitCount r1 = commitCount r
     \<and> outstandingTransactions r1 = outstandingTransactions r
     \<and> last_commit_mark r1 = last_commit_mark r \<and> next_file_mark r1 = next_file_mark r"
  by (auto simp: startFastImport_def reloadBranches_def fiWrite_def split: if_splits)

lemma markFrom_unknown:
  "map_of (branches r) bfrom = None \<Longrightarrow>
     markFrom bfrom n desc r
       = Inr (- 1, desc, r\<lparr>branches := branches r @ [(bfrom, defaultBranch)]\<rparr>)"
  by (simp add: markFrom_def branchAt_def defaultBranch_def)

lemma setupIncremental_rewind:
  "logfile fs = Some content \<Longrightarrow>
   setupIncremental_loop content 0 (fst (lastValidMark (marksfile fs))) cutoff 0
       (r\<lparr>diags := diags r @ snd (lastValidMark (marksfile fs))\<rparr>) = BeyondCutoff pos c r1 \<Longrightarrow>
   setupIncremental cutoff (r, fs)
     = (c, c, say Debug ''truncating history to revision'' r1,
        fs\<lparr>bkupfile := Some content, logfile := Some (take pos content)\<rparr>)"
  by (simp add: setupIncremental_def Let_def)

text \<open>The vectors of a branch stay parallel: the constructor establishes it and every
  operation keeps it.\<close>

lemma list_all_update:
  "list_all P al \<Longrightarrow> P (k, v) \<Longrightarrow> list_all P (AList.update k v al)"
  by (induction al) auto

lemma list_all_lookup:
  "list_all P al \<Longrightarrow> map_of al k = Some b \<Longrightarrow> P (k, b)"
  by (induction al) (auto split: if_splits)

lemma parallel_branchAt:
  "parallelVectors r \<Longrightarrow>
     parallelVectors (snd (branchAt r k))
     \<and> length (commits (fst (branchAt r k))) = length (marks (fst (branchAt r k)))"
proof (cases "map_of (branches r) k")
  case None
  assume "parallelVectors r"
  with None show ?thesis
    by (simp add: branchAt_def parallelVectors_def defaultBranch_def)
next
  case (Some b)
  assume p: "parallelVectors r"
  from list_all_lookup [OF p [unfolded parallelVectors_def] Some] p Some
  show ?thesis by (simp add: branchAt_def)
qed

lemma parallel_setBranch:
  "parallelVectors r \<Longrightarrow> length (commits b) = length (marks b) \<Longrightarrow>
     parallelVectors (setBranch r k b)"
  by (simp add: parallelVectors_def setBranch_def list_all_update)

lemma parallel_frame [simp]:
  "parallelVectors (say sev msg r) = parallelVectors r"
  "parallelVectors (fiWrite bytes r) = parallelVectors r"
  "parallelVectors (r\<lparr>last_commit_mark := m\<rparr>) = parallelVectors r"
  "parallelVectors (r\<lparr>next_file_mark := m\<rparr>) = parallelVectors r"
  "parallelVectors (r\<lparr>commitCount := m\<rparr>) = parallelVectors r"
  "parallelVectors (r\<lparr>outstandingTransactions := m\<rparr>) = parallelVectors r"
  "parallelVectors (r\<lparr>diags := d\<rparr>) = parallelVectors r"
  "parallelVectors (r\<lparr>running := x\<rparr>) = parallelVectors r"
  "parallelVectors (r\<lparr>processHasStarted := x\<rparr>) = parallelVectors r"
  "parallelVectors (r\<lparr>annotatedTags := ts\<rparr>) = parallelVectors r"
  by (simp_all add: parallelVectors_def say_def fiWrite_def)

lemma parallel_newRepository: "parallelVectors (newRepository rule_name rule_branches)"
proof -
  have f: "list_all (\<lambda>kb. length (commits (snd kb)) = length (marks (snd kb)))
      (fold (\<lambda>n al. AList.update n defaultBranch al) bs al)"
    if "list_all (\<lambda>kb. length (commits (snd kb)) = length (marks (snd kb))) al" for bs al
    using that by (induction bs arbitrary: al) (simp_all add: list_all_update defaultBranch_def)
  let ?r = "\<lparr>branches = fold (\<lambda>n al. AList.update n defaultBranch al) rule_branches [],
                annotatedTags = [], name = rule_name, commitCount = 0,
                outstandingTransactions = 0, last_commit_mark = 0,
                next_file_mark = maxMark, processHasStarted = False, running = False,
                written = [], diags = []\<rparr>"
  have p: "parallelVectors ?r"
    using f [of "[]" rule_branches] by (simp add: parallelVectors_def)
  from parallel_branchAt [OF p, of "''master''"] show ?thesis
    by (simp add: newRepository_def Let_def case_prod_beta parallel_setBranch)
qed

lemma parallel_startFastImport:
  "parallelVectors r \<Longrightarrow> startFastImport r = Inr r1 \<Longrightarrow> parallelVectors r1"
  by (auto simp: startFastImport_def reloadBranches_def split: if_splits)

lemma parallel_markFrom:
  "parallelVectors r \<Longrightarrow> markFrom f n d r = Inr (m, d', r') \<Longrightarrow> parallelVectors r'"
  using parallel_branchAt [of r f]
  by (auto simp: markFrom_def Let_def case_prod_beta split: if_splits sum.splits)

lemma parallel_resetBranch:
  "parallelVectors r \<Longrightarrow> resetBranch b n m t c r = Inr (st, r') \<Longrightarrow> parallelVectors r'"
  using parallel_branchAt [of r b]
  by (auto simp: resetBranch_def Let_def case_prod_beta
      intro!: parallel_setBranch split: if_splits sum.splits)

lemma parallel_createBranch:
  "parallelVectors r \<Longrightarrow> createBranch b n f fn r = Inr (st, r') \<Longrightarrow> parallelVectors r'"
proof -
  assume p: "parallelVectors r" and c: "createBranch b n f fn r = Inr (st, r')"
  from c obtain r1 where s: "startFastImport r = Inr r1"
    by (cases "startFastImport r") (simp_all add: createBranch_def)
  from c s obtain m d r2 where mf: "markFrom f fn (''from branch '' @ f) r1 = Inr (m, d, r2)"
    by (cases "markFrom f fn (''from branch '' @ f) r1") (auto simp: createBranch_def)
  have p2: "parallelVectors r2"
    using parallel_markFrom [OF parallel_startFastImport [OF p s] mf] .
  show ?thesis
  proof (cases "m = - 1")
    case True
    with c s mf p2 show ?thesis by (auto simp: createBranch_def)
  next
    case False
    with c s mf obtain ref desc r3 where
      rb: "resetBranch b n m ref desc r3 = Inr (st, r')" and r3: "parallelVectors r3 = parallelVectors r2"
      by (auto simp: createBranch_def Let_def split: if_splits)
    from parallel_resetBranch [OF _ rb] r3 p2 show ?thesis by simp
  qed
qed

lemma parallel_deleteBranch:
  "parallelVectors r \<Longrightarrow> deleteBranch b n r = Inr (st, r') \<Longrightarrow> parallelVectors r'"
proof -
  assume p: "parallelVectors r" and c: "deleteBranch b n r = Inr (st, r')"
  from c obtain r1 where s: "startFastImport r = Inr r1"
    by (cases "startFastImport r") (simp_all add: deleteBranch_def)
  from c s have "resetBranch b n 0 null_sha ''delete'' r1 = Inr (st, r')"
    by (simp add: deleteBranch_def)
  from parallel_resetBranch [OF parallel_startFastImport [OF p s] this] show ?thesis .
qed

lemma parallel_newTransaction:
  "parallelVectors r \<Longrightarrow> newTransaction e b p n r = Inr (t, r') \<Longrightarrow> parallelVectors r'"
  by (auto simp: newTransaction_def Let_def split: sum.splits if_splits
      dest: parallel_startFastImport)

lemma parallel_noteCopyFromBranch:
  "parallelVectors r \<Longrightarrow> noteCopyFromBranch f n (r, t) = Inr (r', t') \<Longrightarrow> parallelVectors r'"
proof -
  assume p: "parallelVectors r" and c: "noteCopyFromBranch f n (r, t) = Inr (r', t')"
  show ?thesis
  proof (cases "branch t = f")
    case True
    with c p show ?thesis by (auto simp: noteCopyFromBranch_def)
  next
    case False
    with c obtain m d r1 where mf: "markFrom f n [] r = Inr (m, d, r1)"
      by (cases "markFrom f n [] r") (auto simp: noteCopyFromBranch_def)
    from parallel_markFrom [OF p mf] c False mf show ?thesis
      by (auto simp: noteCopyFromBranch_def Let_def split: if_splits)
  qed
qed

lemma parallel_addFile:
  "parallelVectors r \<Longrightarrow> addFile e path mode len (r, t) = Inr (r', t') \<Longrightarrow> parallelVectors r'"
  by (auto simp: addFile_def Let_def split: if_splits)

lemma parallel_mergeLoop:
  "parallelVectors (snd (mergeLoop p ms i desc r)) = parallelVectors r"
  by (induction ms arbitrary: i desc r) simp_all

lemma parallel_commitParent:
  "parallelVectors r \<Longrightarrow> parallelVectors (snd (commitParent t m r))"
  using parallel_branchAt [of r "branch t"]
  by (auto simp: commitParent_def Let_def case_prod_beta intro!: parallel_setBranch)

lemma parallel_commit:
  "parallelVectors r \<Longrightarrow> commit e (r, t) = Inr r' \<Longrightarrow> parallelVectors r'"
  by (auto simp: commit_def Let_def case_prod_beta parallel_mergeLoop
      intro!: parallel_commitParent split: if_splits)

lemma parallel_recordEntry:
  "parallelVectors r \<Longrightarrow> parallelVectors (recordEntry n b m r)"
proof -
  assume p: "parallelVectors r"
  let ?r1 = "if last_commit_mark r < m then r\<lparr>last_commit_mark := m\<rparr> else r"
  have "parallelVectors ?r1" using p by simp
  from parallel_branchAt [OF this, of b] show ?thesis
    by (auto simp: recordEntry_def Let_def intro!: parallel_setBranch)
qed

lemma parallel_setupIncremental_loop:
  "parallelVectors r \<Longrightarrow>
     parallelVectors (scanRepository (setupIncremental_loop rest pos lvm cutoff last_revnum r))"
proof (induction "length rest" arbitrary: rest pos last_revnum r rule: less_induct)
  case less
  show ?case
  proof (cases "rest = []")
    case True
    with less.prems show ?thesis by (simp add: loop_end scanRepository_def)
  next
    case ne: False
    note IH = less.hyps [OF readLine_shorter [OF ne]]
    show ?thesis
    proof (cases "strippedLine (fst (readLine rest)) = []
        \<or> progressMatch (fromAscii (strippedLine (fst (readLine rest)))) = None")
      case True
      show ?thesis unfolding loop_skip [OF ne True] using less.prems by (rule IH)
    next
      case False
      then obtain cap1 cap2 cap3 where
        l: "strippedLine (fst (readLine rest)) \<noteq> []" and
        m: "progressMatch (fromAscii (strippedLine (fst (readLine rest)))) = Some (cap1, cap2, cap3)"
        by (cases "progressMatch (fromAscii (strippedLine (fst (readLine rest))))") auto
      consider "toInt cap1 \<ge> cutoff" | "toInt cap1 < cutoff" "toInt cap3 > lvm"
        | "toInt cap1 < cutoff" "toInt cap3 \<le> lvm" by linarith
      then show ?thesis
      proof cases
        case 1
        show ?thesis unfolding loop_beyond [OF ne l m 1]
          using less.prems by (simp add: scanRepository_def)
      next
        case 2
        show ?thesis unfolding loop_rewind [OF ne l m 2]
          using less.prems by (simp add: scanRepository_def)
      next
        case 3
        show ?thesis unfolding loop_accept [OF ne l m 3]
          using less.prems by (intro IH parallel_recordEntry) simp
      qed
    qed
  qed
qed

lemma parallel_setupIncremental:
  "parallelVectors r \<Longrightarrow> parallelVectors (fst (snd (snd (setupIncremental cutoff (r, fs)))))"
proof (cases "logfile fs")
  case None
  assume "parallelVectors r"
  with None show ?thesis by (simp add: setupIncremental_def)
next
  case (Some content)
  assume p: "parallelVectors r"
  let ?r0 = "r\<lparr>diags := diags r @ snd (lastValidMark (marksfile fs))\<rparr>"
  let ?s = "setupIncremental_loop content 0 (fst (lastValidMark (marksfile fs))) cutoff 0 ?r0"
  have "parallelVectors ?r0" using p by simp
  then have "parallelVectors (scanRepository ?s)"
    by (rule parallel_setupIncremental_loop)
  then show ?thesis
    by (cases ?s) (simp_all add: setupIncremental_def Some Let_def scanRepository_def)
qed

lemma parallel_others:
  "parallelVectors (forgetTransaction r) = parallelVectors r"
  "parallelVectors (closeFastImport r) = parallelVectors r"
  "parallelVectors (createAnnotatedTag ref p n a d l r) = parallelVectors r"
  "parallelVectors (writeBody bytes r) = parallelVectors r"
  by (simp_all add: forgetTransaction_def closeFastImport_def createAnnotatedTag_def
      writeBody_def Let_def)

lemma parallel_finalizeTags:
  "parallelVectors r \<Longrightarrow> finalizeTags e r = Inr r' \<Longrightarrow> parallelVectors r'"
  by (auto simp: finalizeTags_def split: if_splits sum.splits dest: parallel_startFastImport)

lemma addFile_emits:
  "addFile e path mode len (r, t) = Inr (r1, t1) \<Longrightarrow>
     emitted r r1 = (if dry_run e then []
                     else ''blob\<newline>mark :'' @ number (next_file_mark r) @ ''\<newline>data '' @ number len
                          @ ''\<newline>'')
     \<and> modifiedFiles t1 = modifiedFiles t @ ''M '' @ number8 mode @ '' :''
                          @ number (next_file_mark r) @ '' '' @ path @ ''\<newline>''"
  by (auto simp: addFile_def Let_def fiWrite_def emitted_def split: if_splits)

lemma commit_emits:
  "commit e (r, t) = Inr r2 \<Longrightarrow>
     emitted r r2
       = (let mark = last_commit_mark r + 1;
              parentmark = fst (commitParent t mark (r\<lparr>last_commit_mark := mark\<rparr>));
              kept = take (if parentmark \<noteq> 0 then 15 else 16)
                       (filter (\<lambda>m. m \<noteq> parentmark) (merges t));
              desc = concat (map (\<lambda>m. '' :'' @ number m) kept)
          in commitHeader t mark (commitMessage e t) @ commitMessage e t @ ''\<newline>''
             @ concat (map (\<lambda>m. ''merge :'' @ number m @ ''\<newline>'') kept)
             @ deletionText (deletedFiles t)
             @ modifiedFiles t
             @ ''\<newline>progress SVN r'' @ number (revnum t) @ '' branch '' @ branch t
             @ '' = :'' @ number mark @ (if desc = [] then [] else '' # merge from'') @ desc
             @ ''\<newline>\<newline>'')"
proof -
  assume c: "commit e (r, t) = Inr r2"
  define m where "m = last_commit_mark r + 1"
  define r1 where "r1 = r\<lparr>last_commit_mark := m\<rparr>"
  define p where "p = fst (commitParent t m r1)"
  define r6 where "r6 = fiWrite ''\<newline>'' (fiWrite (commitMessage e t)
               (fiWrite (commitHeader t m (commitMessage e t)) (snd (commitParent t m r1))))"
  define ml where "ml = mergeLoop p (merges t) (if p \<noteq> 0 then 1 else 0) [] r6"
  define kept where "kept = take (if p \<noteq> 0 then 15 else 16) (filter (\<lambda>x. x \<noteq> p) (merges t))"
  have le: "(if p \<noteq> 0 then 1 else 0 :: int) \<le> 16" by simp
  have cap: "nat (16 - (if p \<noteq> 0 then 1 else 0 :: int)) = (if p \<noteq> 0 then 15 else 16)" by simp
  note g = mergeLoop_general [OF le, of p "merges t" "[]" r6, unfolded cap, folded ml_def kept_def]
  from g have d: "fst ml = concat (map (\<lambda>m. '' :'' @ number m) kept)"
    and w: "written (snd ml) = written r6 @ concat (map (\<lambda>m. ''merge :'' @ number m @ ''\<newline>'') kept)"
    by simp_all
  have w6: "written r6 = written r @ commitHeader t m (commitMessage e t) @ commitMessage e t @ ''\<newline>''"
    by (simp add: r6_def r1_def fiWrite_fields commitParent_fields)
  from c have r2: "r2 = fiWrite (''\<newline>progress SVN r'' @ number (revnum t) @ '' branch '' @ branch t
                               @ '' = :'' @ number m
                               @ (if fst ml = [] then [] else '' # merge from'') @ fst ml
                               @ ''\<newline>\<newline>'')
                    (fiWrite (modifiedFiles t) (fiWrite (deletionText (deletedFiles t)) (snd ml)))"
    by (simp add: commit_def Let_def case_prod_beta ml_def r6_def p_def r1_def m_def
        split: if_splits)
  have "emitted r r2 = commitHeader t m (commitMessage e t) @ commitMessage e t @ ''\<newline>''
             @ concat (map (\<lambda>m. ''merge :'' @ number m @ ''\<newline>'') kept)
             @ deletionText (deletedFiles t)
             @ modifiedFiles t
             @ ''\<newline>progress SVN r'' @ number (revnum t) @ '' branch '' @ branch t
             @ '' = :'' @ number m @ (if fst ml = [] then [] else '' # merge from'') @ fst ml
             @ ''\<newline>\<newline>''"
    unfolding r2 emitted_def by (simp add: fiWrite_fields w w6)
  then show ?thesis
    unfolding d Let_def kept_def p_def r1_def m_def .
qed

lemma readLine_append:
  "CHR ''\<newline>'' \<in> set a \<Longrightarrow> readLine (a @ b) = (fst (readLine a), snd (readLine a) @ b)"
proof -
  assume n: "CHR ''\<newline>'' \<in> set a"
  then obtain c d where d: "dropWhile (\<lambda>c. c \<noteq> CHR ''\<newline>'') a = c # d"
    by (cases "dropWhile (\<lambda>c. c \<noteq> CHR ''\<newline>'') a") auto
  have da: "dropWhile (\<lambda>c. c \<noteq> CHR ''\<newline>'') (a @ b) = c # d @ b"
    using n d by (simp add: dropWhile_append1)
  have ta: "takeWhile (\<lambda>c. c \<noteq> CHR ''\<newline>'') (a @ b) = takeWhile (\<lambda>c. c \<noteq> CHR ''\<newline>'') a"
    using n by (simp add: takeWhile_append1)
  show ?thesis
    unfolding readLine_def da d ta by simp
qed

lemma readLine_parts: "fst (readLine s) @ snd (readLine s) = s"
proof (cases "dropWhile (\<lambda>c. c \<noteq> CHR ''\<newline>'') s")
  case Nil
  then show ?thesis unfolding readLine_def by (simp del: dropWhile_eq_Nil_conv)
next
  case (Cons c r)
  have "takeWhile (\<lambda>c. c \<noteq> CHR ''\<newline>'') s @ dropWhile (\<lambda>c. c \<noteq> CHR ''\<newline>'') s = s"
    by (rule takeWhile_dropWhile_id)
  with Cons show ?thesis unfolding readLine_def by simp
qed

lemma readLine_rest_lines:
  "s \<noteq> [] \<Longrightarrow> last s = CHR ''\<newline>'' \<Longrightarrow>
     snd (readLine s) = [] \<or> last (snd (readLine s)) = CHR ''\<newline>''"
  using readLine_parts [of s] by (metis last_appendR)

lemma loop_append:
  "pre = [] \<or> last pre = CHR ''\<newline>'' \<Longrightarrow>
   setupIncremental_loop pre pos lvm cutoff last_revnum r = AtEnd l r' \<Longrightarrow>
   setupIncremental_loop (pre @ rest) pos lvm cutoff last_revnum r
     = setupIncremental_loop rest (pos + length pre) lvm cutoff l r'"
proof (induction "length pre" arbitrary: pre pos last_revnum r rule: less_induct)
  case less
  show ?case
  proof (cases "pre = []")
    case True
    with less.prems(2) show ?thesis by (simp add: loop_end)
  next
    case ne: False
    with less.prems(1) have nl: "last pre = CHR ''\<newline>''" by simp
    with ne have mem: "CHR ''\<newline>'' \<in> set pre" by (metis last_in_set)
    note rl = readLine_append [OF mem, of rest]
    have ne2: "pre @ rest \<noteq> []" using ne by simp
    have len: "pos + length (fst (readLine pre)) + length (snd (readLine pre)) = pos + length pre"
      using arg_cong [OF readLine_parts [of pre], of length] by simp
    note IH = less.hyps [OF readLine_shorter [OF ne] readLine_rest_lines [OF ne nl]]
    show ?thesis
    proof (cases "strippedLine (fst (readLine pre)) = []
        \<or> progressMatch (fromAscii (strippedLine (fst (readLine pre)))) = None")
      case True
      then have True': "strippedLine (fst (readLine (pre @ rest))) = []
        \<or> progressMatch (fromAscii (strippedLine (fst (readLine (pre @ rest))))) = None"
        by (simp add: rl)
      from less.prems(2) have "setupIncremental_loop (snd (readLine pre))
          (pos + length (fst (readLine pre))) lvm cutoff last_revnum r = AtEnd l r'"
        by (simp add: loop_skip [OF ne True])
      from IH [OF this] show ?thesis
        unfolding loop_skip [OF ne2 True'] by (simp add: rl len)
    next
      case False
      then obtain cap1 cap2 cap3 where
        l: "strippedLine (fst (readLine pre)) \<noteq> []" and
        m: "progressMatch (fromAscii (strippedLine (fst (readLine pre)))) = Some (cap1, cap2, cap3)"
        by (cases "progressMatch (fromAscii (strippedLine (fst (readLine pre))))") auto
      have l': "strippedLine (fst (readLine (pre @ rest))) \<noteq> []" and
        m': "progressMatch (fromAscii (strippedLine (fst (readLine (pre @ rest))))) = Some (cap1, cap2, cap3)"
        using l m by (simp_all add: rl)
      consider "toInt cap1 \<ge> cutoff" | "toInt cap1 < cutoff" "toInt cap3 > lvm"
        | "toInt cap1 < cutoff" "toInt cap3 \<le> lvm" by linarith
      then show ?thesis
      proof cases
        case 1
        with less.prems(2) show ?thesis by (simp add: loop_beyond [OF ne l m 1])
      next
        case 2
        with less.prems(2) show ?thesis by (simp add: loop_rewind [OF ne l m 2])
      next
        case 3
        from less.prems(2) have "setupIncremental_loop (snd (readLine pre))
          (pos + length (fst (readLine pre))) lvm cutoff (toInt cap1)
          (recordEntry (toInt cap1) cap2 (toInt cap3)
            (if toInt cap1 < last_revnum
             then say Warning ''revision numbers are not monotonic: '' r else r)) = AtEnd l r'"
          by (simp add: loop_accept [OF ne l m 3])
        from IH [OF this] show ?thesis
          unfolding loop_accept [OF ne2 l' m' 3] by (simp add: rl len)
      qed
    qed
  qed
qed

lemma setupIncremental_rewinds_at:
  "logfile fs = Some (pre @ rest) \<Longrightarrow> pre = [] \<or> last pre = CHR ''\<newline>'' \<Longrightarrow>
   setupIncremental_loop pre 0 (fst (lastValidMark (marksfile fs))) cutoff 0
       (r\<lparr>diags := diags r @ snd (lastValidMark (marksfile fs))\<rparr>) = AtEnd l r' \<Longrightarrow>
   rest \<noteq> [] \<Longrightarrow> strippedLine (fst (readLine rest)) \<noteq> [] \<Longrightarrow>
   progressMatch (fromAscii (strippedLine (fst (readLine rest)))) = Some (cap1, cap2, cap3) \<Longrightarrow>
   toInt cap1 < cutoff \<Longrightarrow> toInt cap3 > fst (lastValidMark (marksfile fs)) \<Longrightarrow>
   setupIncremental cutoff (r, fs)
     = (toInt cap1, toInt cap1,
        say Debug ''truncating history to revision''
          (say Warning ''unknown commit mark found: rewinding -- did you hit Ctrl-C?''
             (if toInt cap1 < l then say Warning ''revision numbers are not monotonic: '' r' else r')),
        fs\<lparr>bkupfile := Some (pre @ rest), logfile := Some pre\<rparr>)"
proof -
  assume f: "logfile fs = Some (pre @ rest)" and p: "pre = [] \<or> last pre = CHR ''\<newline>''"
    and a: "setupIncremental_loop pre 0 (fst (lastValidMark (marksfile fs))) cutoff 0
       (r\<lparr>diags := diags r @ snd (lastValidMark (marksfile fs))\<rparr>) = AtEnd l r'"
    and ne: "rest \<noteq> []" and s: "strippedLine (fst (readLine rest)) \<noteq> []"
    and m: "progressMatch (fromAscii (strippedLine (fst (readLine rest)))) = Some (cap1, cap2, cap3)"
    and c: "toInt cap1 < cutoff" and k: "toInt cap3 > fst (lastValidMark (marksfile fs))"
  have "setupIncremental_loop (pre @ rest) 0 (fst (lastValidMark (marksfile fs))) cutoff 0
       (r\<lparr>diags := diags r @ snd (lastValidMark (marksfile fs))\<rparr>)
     = BeyondCutoff (length pre) (toInt cap1)
         (say Warning ''unknown commit mark found: rewinding -- did you hit Ctrl-C?''
            (if toInt cap1 < l then say Warning ''revision numbers are not monotonic: '' r' else r'))"
    unfolding loop_append [OF p a] using loop_rewind [OF ne s m c k] by simp
  from setupIncremental_rewind [OF f this] show ?thesis by simp
qed

lemma mergeLoop_tooMany:
  "i \<le> 16 \<Longrightarrow>
   filter (\<lambda>d. d = (Warning, ''too many merge parents'')) (diags (snd (mergeLoop p ms i desc r)))
     = filter (\<lambda>d. d = (Warning, ''too many merge parents'')) (diags r)
       @ (if int (length (filter (\<lambda>m. m \<noteq> p) ms)) > 16 - i
          then [(Warning, ''too many merge parents'')] else [])"
proof (induction ms arbitrary: i desc r)
  case Nil
  then show ?case by simp
next
  case (Cons m ms)
  show ?case
  proof (cases "m = p")
    case True
    with Cons.IH [OF Cons.prems, of desc "say Debug ''Skipping marking as a merge point'' r"]
    show ?thesis by (simp add: say_def)
  next
    case neq: False
    show ?thesis
    proof (cases "i + 1 > 16")
      case True
      with Cons.prems have "i = 16" by simp
      with neq show ?thesis by (simp add: say_def)
    next
      case False
      then have le: "i + 1 \<le> 16" by simp
      from neq False Cons.IH [OF le, of "desc @ '' :'' @ number m" "fiWrite (''merge'' @ '' :'' @ number m @ ''\<newline>'') r"]
      show ?thesis
        by (simp add: fiWrite_def)
    qed
  qed
qed

lemma branchAt_fst_lcm:
  "fst (branchAt (r\<lparr>last_commit_mark := m\<rparr>) k) = fst (branchAt r k)"
  by (simp add: branchAt_def split: option.splits)

lemma commitParent_fst:
  "fst (commitParent t m (r\<lparr>last_commit_mark := m\<rparr>))
     = (if created (fst (branchAt r (branch t))) \<noteq> 0 \<and> marks (fst (branchAt r (branch t))) \<noteq> []
        then last (marks (fst (branchAt r (branch t)))) else 0)"
  using branchAt_fst_lcm [where r = r and m = m and k = "branch t"]
  by (simp add: commitParent_def Let_def case_prod_beta)

lemma commitParent_tooMany:
  "filter (\<lambda>d. d = (Warning, ''too many merge parents'')) (diags (snd (commitParent t m r)))
     = filter (\<lambda>d. d = (Warning, ''too many merge parents'')) (diags r)"
proof -
  have "diags (snd (branchAt r k)) = diags r" for k
    by (simp add: branchAt_def split: option.splits)
  then show ?thesis
    by (simp add: commitParent_def Let_def case_prod_beta setBranch_def say_def)
qed

lemma commit_tooMany:
  "commit e (r, t) = Inr r2 \<Longrightarrow>
     filter (\<lambda>d. d = (Warning, ''too many merge parents'')) (diags r2)
       = filter (\<lambda>d. d = (Warning, ''too many merge parents'')) (diags r)
         @ (let mark = last_commit_mark r + 1;
                parentmark = fst (commitParent t mark (r\<lparr>last_commit_mark := mark\<rparr>))
            in if length (filter (\<lambda>m. m \<noteq> parentmark) (merges t))
                    > (if parentmark \<noteq> 0 then 15 else 16)
               then [(Warning, ''too many merge parents'')] else [])"
proof -
  assume c: "commit e (r, t) = Inr r2"
  define m where "m = last_commit_mark r + 1"
  define r1 where "r1 = r\<lparr>last_commit_mark := m\<rparr>"
  define p where "p = fst (commitParent t m r1)"
  define r6 where "r6 = fiWrite ''\<newline>'' (fiWrite (commitMessage e t)
               (fiWrite (commitHeader t m (commitMessage e t)) (snd (commitParent t m r1))))"
  define ml where "ml = mergeLoop p (merges t) (if p \<noteq> 0 then 1 else 0) [] r6"
  have le: "(if p \<noteq> 0 then 1 else 0 :: int) \<le> 16" by simp
  have cnt: "(16 - (if p \<noteq> 0 then 1 else 0 :: int) < int n) = ((if p \<noteq> 0 then 15 else 16) < n)" for n
    by simp
  note g = mergeLoop_tooMany [OF le, of p "merges t" "[]" r6, unfolded cnt, folded ml_def]
  have d6: "filter (\<lambda>d. d = (Warning, ''too many merge parents'')) (diags r6)
      = filter (\<lambda>d. d = (Warning, ''too many merge parents'')) (diags r)"
    by (simp add: r6_def r1_def fiWrite_def commitParent_tooMany)
  from c have r2: "diags r2 = diags (snd ml)"
    by (auto simp: commit_def Let_def case_prod_beta ml_def r6_def p_def r1_def m_def fiWrite_def
        split: if_splits)
  have "filter (\<lambda>d. d = (Warning, ''too many merge parents'')) (diags r2)
       = filter (\<lambda>d. d = (Warning, ''too many merge parents'')) (diags r)
         @ (if length (filter (\<lambda>m. m \<noteq> p) (merges t)) > (if p \<noteq> 0 then 15 else 16)
            then [(Warning, ''too many merge parents'')] else [])"
    unfolding r2 g d6 ..
  then show ?thesis
    unfolding Let_def p_def r1_def m_def .
qed

lemma commit_succeeds:
  "last_commit_mark r + 1 < next_file_mark r - 1 \<Longrightarrow> \<not> write_fails e \<Longrightarrow>
     \<exists>r'. commit e (r, t) = Inr r'"
  by (simp add: commit_def Let_def case_prod_beta)

subsection \<open>The claims\<close>

text \<open>
  C1. Scenario S1: on a new repository with the branch master, the transaction
  \<open>newTransaction("master", "/p", 3)\<close> with author, date 1000 and log "hello", one
  \<open>addFile("f", 0100644, 5)\<close> whose body is "hello", then \<open>commit()\<close>, writes to the
  importer exactly the blob header, the five bytes of the body, and then the commit
  header, the message, the modification line and the closing progress line, in this
  order. In general \<open>addFile\<close> writes the header of its blob (unless in a dry run)
  and appends its line to the modifications, and \<open>commit\<close> writes the commit
  header and the message, then the merge lines, then the deletions, then the
  modifications, then the closing progress line.
\<close>

theorem scenario_S1_wire:
  "map_sum id written scenarioS1 =
     Inr (''blob\<newline>mark :1048575\<newline>data 5\<newline>'' @ ''hello''
          @ ''commit refs/heads/master\<newline>mark :1\<newline>committer A <a@x> 1000 -0000\<newline>data 6\<newline>hello\<newline>\<newline>M 100644 :1048575 f\<newline>\<newline>progress SVN r3 branch master = :1\<newline>\<newline>'')
   \<and> (addFile e path mode len (r, t) = Inr (r1, t1) \<longrightarrow>
        emitted r r1 = (if dry_run e then []
                        else ''blob\<newline>mark :'' @ number (next_file_mark r) @ ''\<newline>data ''
                             @ number len @ ''\<newline>'')
        \<and> modifiedFiles t1 = modifiedFiles t @ ''M '' @ number8 mode @ '' :''
                             @ number (next_file_mark r) @ '' '' @ path @ ''\<newline>'')
   \<and> (commit e (r, t) = Inr r2 \<longrightarrow>
        emitted r r2
          = (let mark = last_commit_mark r + 1;
                 parentmark = fst (commitParent t mark (r\<lparr>last_commit_mark := mark\<rparr>));
                 kept = take (if parentmark \<noteq> 0 then 15 else 16)
                          (filter (\<lambda>m. m \<noteq> parentmark) (merges t));
                 desc = concat (map (\<lambda>m. '' :'' @ number m) kept)
             in commitHeader t mark (commitMessage e t) @ commitMessage e t @ ''\<newline>''
                @ concat (map (\<lambda>m. ''merge :'' @ number m @ ''\<newline>'') kept)
                @ deletionText (deletedFiles t)
                @ modifiedFiles t
                @ ''\<newline>progress SVN r'' @ number (revnum t) @ '' branch '' @ branch t
                @ '' = :'' @ number mark @ (if desc = [] then [] else '' # merge from'') @ desc
                @ ''\<newline>\<newline>''))"
proof -
  have s: "map_sum id written scenarioS1 =
     Inr (''blob\<newline>mark :1048575\<newline>data 5\<newline>'' @ ''hello''
          @ ''commit refs/heads/master\<newline>mark :1\<newline>committer A <a@x> 1000 -0000\<newline>data 6\<newline>hello\<newline>\<newline>M 100644 :1048575 f\<newline>\<newline>progress SVN r3 branch master = :1\<newline>\<newline>'')"
    by code_simp
  show ?thesis
    by (intro conjI impI s addFile_emits [THEN conjunct1] addFile_emits [THEN conjunct2]
        commit_emits)
qed

theorem scenario_S1_wire_witness:
  "emitted repoS1 repoS1_file = ''blob\<newline>mark :1048575\<newline>data 5\<newline>''
   \<and> emitted (writeBody ''hello'' repoS1_file)
        (projr (commit env0 (writeBody ''hello'' repoS1_file, txnS1_file)))
       = ''commit refs/heads/master\<newline>mark :1\<newline>committer A <a@x> 1000 -0000\<newline>data 6\<newline>hello\<newline>\<newline>M 100644 :1048575 f\<newline>\<newline>progress SVN r3 branch master = :1\<newline>\<newline>''"
proof -
  let ?r = "writeBody ''hello'' repoS1_file"
  have h: "addFile env0 ''f'' 33188 5 (repoS1, txnS1) = Inr (repoS1_file, txnS1_file)"
    by code_simp
  have k: "commit env0 (?r, txnS1_file) = Inr (projr (commit env0 (?r, txnS1_file)))"
    by code_simp
  have e1: "(if dry_run env0 then []
             else ''blob\<newline>mark :'' @ number (next_file_mark repoS1) @ ''\<newline>data ''
                  @ number 5 @ ''\<newline>'') = ''blob\<newline>mark :1048575\<newline>data 5\<newline>''"
    by code_simp
  have e2: "(let mark = last_commit_mark ?r + 1;
                 parentmark = fst (commitParent txnS1_file mark (?r\<lparr>last_commit_mark := mark\<rparr>));
                 kept = take (if parentmark \<noteq> 0 then 15 else 16)
                          (filter (\<lambda>m. m \<noteq> parentmark) (merges txnS1_file));
                 desc = concat (map (\<lambda>m. '' :'' @ number m) kept)
             in commitHeader txnS1_file mark (commitMessage env0 txnS1_file)
                @ commitMessage env0 txnS1_file @ ''\<newline>''
                @ concat (map (\<lambda>m. ''merge :'' @ number m @ ''\<newline>'') kept)
                @ deletionText (deletedFiles txnS1_file)
                @ modifiedFiles txnS1_file
                @ ''\<newline>progress SVN r'' @ number (revnum txnS1_file) @ '' branch '' @ branch txnS1_file
                @ '' = :'' @ number mark @ (if desc = [] then [] else '' # merge from'') @ desc
                @ ''\<newline>\<newline>'')
            = ''commit refs/heads/master\<newline>mark :1\<newline>committer A <a@x> 1000 -0000\<newline>data 6\<newline>hello\<newline>\<newline>M 100644 :1048575 f\<newline>\<newline>progress SVN r3 branch master = :1\<newline>\<newline>''"
    by code_simp
  note T = scenario_S1_wire [of env0 "''f''" 33188 5 repoS1 txnS1 repoS1_file txnS1_file]
  note U = scenario_S1_wire [of env0 _ _ _ ?r txnS1_file _ _ "projr (commit env0 (?r, txnS1_file))"]
  from T [THEN conjunct2, THEN conjunct1, rule_format, OF h, THEN conjunct1]
  have 1: "emitted repoS1 repoS1_file = ''blob\<newline>mark :1048575\<newline>data 5\<newline>''"
    by (rule trans) (rule e1)
  from U [THEN conjunct2, THEN conjunct2, rule_format, OF k]
  have 2: "emitted ?r (projr (commit env0 (?r, txnS1_file)))
       = ''commit refs/heads/master\<newline>mark :1\<newline>committer A <a@x> 1000 -0000\<newline>data 6\<newline>hello\<newline>\<newline>M 100644 :1048575 f\<newline>\<newline>progress SVN r3 branch master = :1\<newline>\<newline>''"
    by (rule trans) (rule e2)
  from 1 2 show ?thesis by blast
qed

text \<open>
  C2. Mark-space disjointness. A blob mark is allocated by \<open>addFile\<close> only when
  \<open>next_file_mark > last_commit_mark + 1\<close> holds, and a commit mark by \<open>commit\<close>
  only when it holds after the allocation; in each case the violation is the failed
  assertion. \<open>next_file_mark\<close> starts at \<open>maxMark = 2^20 - 1\<close>, is set back to it
  by \<open>forgetTransaction\<close> exactly when the number of outstanding transactions drops
  to zero, is decremented by \<open>addFile\<close>, and is left as it is by every other
  operation.
\<close>

theorem mark_space_disjoint:
  "(addFile e path mode len (r, t) = Inr (r', t') \<longrightarrow>
      next_file_mark r > last_commit_mark r + 1
      \<and> next_file_mark r' = next_file_mark r - 1 \<and> last_commit_mark r' = last_commit_mark r)
   \<and> (\<not> next_file_mark r > last_commit_mark r + 1 \<longrightarrow>
         addFile e path mode len (r, t) = Inl AssertionFailed)
   \<and> (commit e (r, t) = Inr r'' \<longrightarrow>
        last_commit_mark r'' = last_commit_mark r + 1 \<and> next_file_mark r'' = next_file_mark r
        \<and> next_file_mark r'' > last_commit_mark r'' + 1)
   \<and> (\<not> next_file_mark r > (last_commit_mark r + 1) + 1 \<longrightarrow>
         commit e (r, t) = Inl AssertionFailed)
   \<and> maxMark = 2 ^ 20 - 1
   \<and> next_file_mark (newRepository rule_name rule_branches) = maxMark
   \<and> outstandingTransactions (forgetTransaction r) = outstandingTransactions r - 1
   \<and> next_file_mark (forgetTransaction r)
        = (if outstandingTransactions (forgetTransaction r) = 0 then maxMark else next_file_mark r)
   \<and> (newTransaction e bname prefix n r = Inr (t1, r1) \<longrightarrow> next_file_mark r1 = next_file_mark r)
   \<and> (noteCopyFromBranch bfrom n (r, t) = Inr (r2, t2) \<longrightarrow> next_file_mark r2 = next_file_mark r)
   \<and> (createBranch bname n bfrom nfrom r = Inr (st3, r3) \<longrightarrow> next_file_mark r3 = next_file_mark r)
   \<and> (deleteBranch bname n r = Inr (st4, r4) \<longrightarrow> next_file_mark r4 = next_file_mark r)
   \<and> (finalizeTags e r = Inr r5 \<longrightarrow> next_file_mark r5 = next_file_mark r)
   \<and> (startFastImport r = Inr r6 \<longrightarrow> next_file_mark r6 = next_file_mark r)
   \<and> next_file_mark (closeFastImport r) = next_file_mark r
   \<and> next_file_mark (createAnnotatedTag ref prefix n auth d lg r) = next_file_mark r
   \<and> next_file_mark (writeBody bytes r) = next_file_mark r
   \<and> next_file_mark (fst (snd (snd (setupIncremental cutoff (r, fs))))) = next_file_mark r
   \<and> (next_file_mark r > last_commit_mark r + 1 \<longrightarrow>
         (\<exists>ra ta. addFile e path mode len (r, t) = Inr (ra, ta)))
   \<and> (next_file_mark r > (last_commit_mark r + 1) + 1 \<longrightarrow>
         commit e (r, t) \<noteq> Inl AssertionFailed)
   \<and> destroyTransaction r = forgetTransaction r"
proof -
  have a: "addFile e path mode len (r, t) = Inr (r', t') \<longrightarrow>
      next_file_mark r > last_commit_mark r + 1
      \<and> next_file_mark r' = next_file_mark r - 1 \<and> last_commit_mark r' = last_commit_mark r"
    using addFile_marks by blast
  have b: "\<not> next_file_mark r > last_commit_mark r + 1 \<longrightarrow>
         addFile e path mode len (r, t) = Inl AssertionFailed"
    by (simp add: addFile_assert)
  have c: "commit e (r, t) = Inr r'' \<longrightarrow>
        last_commit_mark r'' = last_commit_mark r + 1 \<and> next_file_mark r'' = next_file_mark r
        \<and> next_file_mark r'' > last_commit_mark r'' + 1"
    using commit_marks [of e r t r''] by auto
  have d: "\<not> next_file_mark r > (last_commit_mark r + 1) + 1 \<longrightarrow>
         commit e (r, t) = Inl AssertionFailed"
    using commit_assert [of r e t] by auto
  have i: "next_file_mark (newRepository rule_name rule_branches) = maxMark"
    by (simp add: newRepository_def Let_def setBranch_def branchAt_def split: option.splits)
  have f: "outstandingTransactions (forgetTransaction r) = outstandingTransactions r - 1"
    "next_file_mark (forgetTransaction r)
        = (if outstandingTransactions (forgetTransaction r) = 0 then maxMark else next_file_mark r)"
    by (simp_all add: forgetTransaction_def Let_def)
  have g: "next_file_mark r > last_commit_mark r + 1 \<longrightarrow>
         (\<exists>ra ta. addFile e path mode len (r, t) = Inr (ra, ta))"
    by (simp add: addFile_def Let_def)
  have h: "next_file_mark r > (last_commit_mark r + 1) + 1 \<longrightarrow>
         commit e (r, t) \<noteq> Inl AssertionFailed"
    by (simp add: commit_def Let_def case_prod_beta)
  show ?thesis
    by (intro conjI a b c d i f g h nfm_simple nfm_setupIncremental impI)
       (simp_all add: maxMark_def destroyTransaction_def nfm_newTransaction nfm_noteCopyFromBranch nfm_createBranch
          nfm_deleteBranch nfm_finalizeTags nfm_startFastImport)
qed

theorem mark_space_disjoint_witness:
  "last_commit_mark repoS1 + 1 < next_file_mark repoS1
   \<and> next_file_mark repoS1_file = next_file_mark repoS1 - 1
   \<and> next_file_mark (forgetTransaction repoS1_file) = maxMark
   \<and> last_commit_mark (projr (commit env0 (repoS1_file, txnS1_file))) + 1
       < next_file_mark (projr (commit env0 (repoS1_file, txnS1_file)))"
proof -
  have h: "addFile env0 ''f'' 33188 5 (repoS1, txnS1) = Inr (repoS1_file, txnS1_file)"
    by code_simp
  have o: "outstandingTransactions repoS1_file = 1"
    by code_simp
  have k: "commit env0 (repoS1_file, txnS1_file)
             = Inr (projr (commit env0 (repoS1_file, txnS1_file)))"
    by code_simp
  note T = mark_space_disjoint [of env0 "''f''" 33188 5 repoS1 txnS1 repoS1_file txnS1_file]
  from T [THEN conjunct1, rule_format, OF h]
  have a: "last_commit_mark repoS1 + 1 < next_file_mark repoS1
        \<and> next_file_mark repoS1_file = next_file_mark repoS1 - 1"
    by blast
  note U = mark_space_disjoint [of env0 "''f''" 33188 5 repoS1_file txnS1_file _ _
      "projr (commit env0 (repoS1_file, txnS1_file))"]
  have b: "next_file_mark (forgetTransaction repoS1_file)
        = (if outstandingTransactions (forgetTransaction repoS1_file) = 0 then maxMark
           else next_file_mark repoS1_file)"
    and c: "outstandingTransactions (forgetTransaction repoS1_file) = outstandingTransactions repoS1_file - 1"
    using U [THEN conjunct2, THEN conjunct2, THEN conjunct2, THEN conjunct2, THEN conjunct2,
            THEN conjunct2, THEN conjunct2, THEN conjunct1]
          U [THEN conjunct2, THEN conjunct2, THEN conjunct2, THEN conjunct2, THEN conjunct2,
            THEN conjunct2, THEN conjunct1]
    by this+
  from U [THEN conjunct2, THEN conjunct2, THEN conjunct1, rule_format, OF k]
  have d: "last_commit_mark (projr (commit env0 (repoS1_file, txnS1_file))) + 1
       < next_file_mark (projr (commit env0 (repoS1_file, txnS1_file)))"
    by blast
  from a b c d o show ?thesis by simp
qed

text \<open>
  C3. Scenario S5: the log holds the entries for r1 (mark 1) and r2 (mark 2), the marks
  file the mark 1 only. \<open>setupIncremental\<close> with cutoff 100 returns 2, sets the
  cutoff to 2, copies the log to the backup, cuts the log just before the line of r2 and
  leaves \<open>last_commit_mark = 1\<close>, with a warning. In general, when the loop reaches
  an entry below the cutoff whose mark exceeds the last valid mark, it warns and leaves
  for the rewind with the cutoff set to the revision of the entry and the position of
  its line. So when the lines before such an entry are all read to their end,
  \<open>setupIncremental\<close> returns the revision of the entry, sets the cutoff to it, copies
  the log to the backup and leaves in the log exactly the lines before the entry.
\<close>

theorem resume_after_kill:
  "fst resumeS5 = 2 \<and> fst (snd resumeS5) = 2
   \<and> last_commit_mark (fst (snd (snd resumeS5))) = 1
   \<and> bkupfile (snd (snd (snd resumeS5))) = Some logS5
   \<and> logfile (snd (snd (snd resumeS5))) = Some ''progress SVN r1 branch master = :1\<newline>''
   \<and> (Warning, ''unknown commit mark found: rewinding -- did you hit Ctrl-C?'')
        \<in> set (diags (fst (snd (snd resumeS5))))
   \<and> (rest \<noteq> [] \<longrightarrow> strippedLine (fst (readLine rest)) \<noteq> [] \<longrightarrow>
        progressMatch (fromAscii (strippedLine (fst (readLine rest)))) = Some (cap1, cap2, cap3) \<longrightarrow>
        toInt cap1 < cutoff \<longrightarrow> toInt cap3 > lvm \<longrightarrow>
        setupIncremental_loop rest pos lvm cutoff last_revnum r
          = BeyondCutoff pos (toInt cap1)
              (say Warning ''unknown commit mark found: rewinding -- did you hit Ctrl-C?''
                 (if toInt cap1 < last_revnum
                  then say Warning ''revision numbers are not monotonic: '' r else r)))
   \<and> (logfile fs = Some (pre @ rest) \<longrightarrow> pre = [] \<or> last pre = CHR ''\<newline>'' \<longrightarrow>
        setupIncremental_loop pre 0 (fst (lastValidMark (marksfile fs))) cutoff 0
            (r\<lparr>diags := diags r @ snd (lastValidMark (marksfile fs))\<rparr>) = AtEnd l r' \<longrightarrow>
        rest \<noteq> [] \<longrightarrow> strippedLine (fst (readLine rest)) \<noteq> [] \<longrightarrow>
        progressMatch (fromAscii (strippedLine (fst (readLine rest)))) = Some (cap1, cap2, cap3) \<longrightarrow>
        toInt cap1 < cutoff \<longrightarrow> toInt cap3 > fst (lastValidMark (marksfile fs)) \<longrightarrow>
        setupIncremental cutoff (r, fs)
          = (toInt cap1, toInt cap1,
             say Debug ''truncating history to revision''
               (say Warning ''unknown commit mark found: rewinding -- did you hit Ctrl-C?''
                  (if toInt cap1 < l
                   then say Warning ''revision numbers are not monotonic: '' r' else r')),
             fs\<lparr>bkupfile := Some (pre @ rest), logfile := Some pre\<rparr>))"
proof -
  have s: "fst resumeS5 = 2" "fst (snd resumeS5) = 2"
    "last_commit_mark (fst (snd (snd resumeS5))) = 1"
    "bkupfile (snd (snd (snd resumeS5))) = Some logS5"
    "logfile (snd (snd (snd resumeS5))) = Some ''progress SVN r1 branch master = :1\<newline>''"
    "(Warning, ''unknown commit mark found: rewinding -- did you hit Ctrl-C?'')
        \<in> set (diags (fst (snd (snd resumeS5))))"
    by code_simp+
  show ?thesis
    by (intro conjI impI s loop_rewind setupIncremental_rewinds_at)
qed

theorem resume_after_kill_witness:
  "setupIncremental_loop ''progress SVN r2 branch master = :2\<newline>'' 35 1 100 1
       (newRepository ''R'' [''master''])
     = BeyondCutoff 35 2
         (say Warning ''unknown commit mark found: rewinding -- did you hit Ctrl-C?''
            (newRepository ''R'' [''master'']))
   \<and> fst (setupIncremental 100 (newRepository ''R'' [''master''], filesS5)) = 2
   \<and> snd (snd (snd (setupIncremental 100 (newRepository ''R'' [''master''], filesS5))))
     = filesS5\<lparr>bkupfile := Some logS5,
               logfile := Some ''progress SVN r1 branch master = :1\<newline>''\<rparr>"
proof -
  let ?pre = "''progress SVN r1 branch master = :1\<newline>''"
  let ?rest = "''progress SVN r2 branch master = :2\<newline>''"
  let ?r = "newRepository ''R'' [''master'']"
  let ?loop = "setupIncremental_loop ?pre 0 (fst (lastValidMark (marksfile filesS5))) 100 0
            (?r\<lparr>diags := diags ?r @ snd (lastValidMark (marksfile filesS5))\<rparr>)"
  have a: "?rest \<noteq> []" by simp
  have b: "strippedLine (fst (readLine ?rest)) \<noteq> []" by code_simp
  have c: "progressMatch (fromAscii (strippedLine (fst (readLine ?rest)))) = Some (''2'', ''master'', ''2'')"
    by code_simp
  have d: "toInt ''2'' < 100" "toInt ''2'' > 1" "toInt ''2'' = 2"
    "toInt ''2'' > fst (lastValidMark (marksfile filesS5))" by code_simp+
  have f: "logfile filesS5 = Some (?pre @ ?rest)" by code_simp
  have p: "?pre = [] \<or> last ?pre = CHR ''\<newline>''" by simp
  have g: "?loop = AtEnd 1 (scanRepository ?loop)" by code_simp
  have ls: "logS5 = ?pre @ ?rest" by code_simp
  note T = resume_after_kill [of ?rest "''2''" "''master''" "''2''" 100 1 35 1 ?r]
  from T [THEN conjunct2, THEN conjunct2, THEN conjunct2, THEN conjunct2, THEN conjunct2,
      THEN conjunct2, THEN conjunct1, rule_format, OF a b c d(1) d(2)]
  have 1: "setupIncremental_loop ?rest 35 1 100 1 ?r
     = BeyondCutoff 35 2
         (say Warning ''unknown commit mark found: rewinding -- did you hit Ctrl-C?'' ?r)"
    by (simp add: d(3))
  note U = resume_after_kill [of ?rest "''2''" "''master''" "''2''" 100 _ _ _ ?r
      filesS5 ?pre 1 "scanRepository ?loop"]
  from U [THEN conjunct2, THEN conjunct2, THEN conjunct2, THEN conjunct2, THEN conjunct2,
      THEN conjunct2, THEN conjunct2, rule_format, OF f p g a b c d(1) d(4)]
  have 2: "fst (setupIncremental 100 (?r, filesS5)) = 2
    \<and> snd (snd (snd (setupIncremental 100 (?r, filesS5))))
     = filesS5\<lparr>bkupfile := Some logS5, logfile := Some ?pre\<rparr>"
    by (simp add: d(3) ls)
  from 1 2 show ?thesis by blast
qed

text \<open>
  C4, at the input where the source departs from it: a marks file with a blank line
  between the entries for the marks 1 and 2. The line that \<open>readLine\<close> returns holds
  its newline, so it is not empty, \<open>line.isEmpty()\<close> does not skip it, and the reader
  reports corruption and returns 0 instead of the mark 2.
\<close>

theorem lastValidMark_blank_line:
  "lastValidMark (Some '':1 abc\<newline>\<newline>:2 def\<newline>'') = (0, [(Critical, ''marks file corrupt?'')])"
  by code_simp

text \<open>
  C5. \<open>markFrom\<close> on a branch whose two vectors have the same length: -1 when the
  branch was never created or has no commits; the last mark when the revision is the
  last commit; otherwise 0 when the position found by the upper-bound search is the
  beginning, and else the mark just before that position, with the description extended
  by \<open>at r<revnum>\<close> (and \<open>=> r<closest>\<close> when the closest commit differs)
  exactly when it was not empty and this last case applies. On sorted commits the
  position is the first one whose commit is strictly greater than the revision.
  The equal lengths hold for every branch of a repository with \<open>parallelVectors\<close>,
  hence in every state the operations produce.
\<close>

theorem markFrom_resolution:
  "fst (branchAt r branchFrom) = b \<Longrightarrow> length (marks b) = length (commits b) \<Longrightarrow>
   markFrom branchFrom n desc r = Inr
     (if created b = 0 \<or> commits b = [] then - 1
      else if n = last (commits b) then last (marks b)
      else if qUpperBound (commits b) n = 0 then 0
      else marks b ! (qUpperBound (commits b) n - 1),
      if created b \<noteq> 0 \<and> commits b \<noteq> [] \<and> n \<noteq> last (commits b)
         \<and> qUpperBound (commits b) n \<noteq> 0 \<and> desc \<noteq> []
      then desc @ '' at r'' @ number n
           @ (if commits b ! (qUpperBound (commits b) n - 1) \<noteq> n
              then '' => r'' @ number (commits b ! (qUpperBound (commits b) n - 1)) else [])
      else desc,
      snd (branchAt r branchFrom))
   \<and> (sorted (commits b) \<longrightarrow>
        (\<forall>i<qUpperBound (commits b) n. commits b ! i \<le> n)
        \<and> (\<forall>i. qUpperBound (commits b) n \<le> i \<and> i < length (commits b) \<longrightarrow> n < commits b ! i))"
proof -
  assume b: "fst (branchAt r branchFrom) = b" and len: "length (marks b) = length (commits b)"
  obtain r1 where at: "branchAt r branchFrom = (b, r1)"
    using b by (cases "branchAt r branchFrom") simp
  have ne: "marks b \<noteq> []" if "commits b \<noteq> []"
    using that len by auto
  have inr: "qUpperBound (commits b) n - 1 < length (marks b)" if "qUpperBound (commits b) n \<noteq> 0"
    using that qUpperBound_le [of "commits b" n] len by simp
  have "markFrom branchFrom n desc r = Inr
     (if created b = 0 \<or> commits b = [] then - 1
      else if n = last (commits b) then last (marks b)
      else if qUpperBound (commits b) n = 0 then 0
      else marks b ! (qUpperBound (commits b) n - 1),
      if created b \<noteq> 0 \<and> commits b \<noteq> [] \<and> n \<noteq> last (commits b)
         \<and> qUpperBound (commits b) n \<noteq> 0 \<and> desc \<noteq> []
      then desc @ '' at r'' @ number n
           @ (if commits b ! (qUpperBound (commits b) n - 1) \<noteq> n
              then '' => r'' @ number (commits b ! (qUpperBound (commits b) n - 1)) else [])
      else desc,
      snd (branchAt r branchFrom))"
    using ne inr by (simp add: markFrom_def at vlast_def vat_def Let_def)
  then show ?thesis
    using qUpperBound_sorted [of "commits b" n] by blast
qed


theorem markFrom_resolution_witness:
  "markFrom ''trunk'' 7 ''from branch trunk'' repoTrunk
     = Inr (2, ''from branch trunk at r7 => r5'', repoTrunk)
   \<and> qUpperBound [2, 5, 9] 7 = 2"
proof -
  have q: "qUpperBound [2, 5, 9] 7 = 2" by code_simp
  have a: "branchAt repoTrunk ''trunk''
             = (\<lparr>created = 1, commits = [2, 5, 9], marks = [1, 2, 3]\<rparr>, repoTrunk)"
    by (simp add: branchAt_def repoTrunk_def)
  show ?thesis
    using markFrom_resolution [of repoTrunk "''trunk''"
        "\<lparr>created = 1, commits = [2, 5, 9], marks = [1, 2, 3]\<rparr>" 7 "''from branch trunk''"]
    by (simp add: a q number_def digits10.simps)
qed

text \<open>
  C6, as the specification states it: in the state S1 leaves,
  \<open>createBranch("b", 5, "master", 3)\<close> would write a progress line with the mark
  \<open>:0\<close> and the comment \<open>from branch master at r3\<close>. The source writes other
  bytes.
\<close>

theorem scenario_S2_claimed_bytes:
  "scenarioS2 \<noteq> Inr ''reset refs/heads/b\<newline>from :1\<newline>\<newline>progress SVN r5 branch b = :0 # from branch master at r3\<newline>\<newline>''"
  by code_simp

text \<open>
  C6, amended. In the state S1 leaves, \<open>createBranch("b", 5, "master", 3)\<close> writes
  the reset of \<open>refs/heads/b\<close> from \<open>:1\<close> and a progress line with the mark
  \<open>:1\<close> and the comment \<open>from branch master\<close>: revision 3 is the last commit of
  master, so \<open>markFrom\<close> returns its mark 1 on the fast path, which leaves the
  description as it is.
\<close>

theorem scenario_S2_wire:
  "scenarioS2 = Inr ''reset refs/heads/b\<newline>from :1\<newline>\<newline>progress SVN r5 branch b = :1 # from branch master\<newline>\<newline>''"
  by code_simp

text \<open>
  C7. What \<open>commit\<close> emits for the merges. The parent mark is the last mark of the
  branch when the branch exists and has marks, and 0 otherwise. Between the message and
  the deletions \<open>commit\<close> writes one \<open>merge :<m>\<close> line for each merge mark that
  differs from the parent mark, in insertion order, and stops after 15 lines when there
  is a parent and after 16 when there is none; the closing progress line lists the same
  marks. When more such marks are left, \<open>commit\<close> issues the warning
  \<open>too many merge parents\<close> exactly once and drops them; otherwise it does not
  issue it.
\<close>

theorem merge_parent_cap:
  "commit e (r, t) = Inr r' \<Longrightarrow>
   parentmark = (if created (fst (branchAt r (branch t))) \<noteq> 0
                    \<and> marks (fst (branchAt r (branch t))) \<noteq> []
                 then last (marks (fst (branchAt r (branch t)))) else 0) \<Longrightarrow>
   others = filter (\<lambda>m. m \<noteq> parentmark) (merges t) \<Longrightarrow>
   kept = take (if parentmark \<noteq> 0 then 15 else 16) others \<Longrightarrow>
   desc = concat (map (\<lambda>m. '' :'' @ number m) kept) \<Longrightarrow>
     emitted r r'
       = commitHeader t (last_commit_mark r + 1) (commitMessage e t) @ commitMessage e t @ ''\<newline>''
         @ concat (map (\<lambda>m. ''merge :'' @ number m @ ''\<newline>'') kept)
         @ deletionText (deletedFiles t)
         @ modifiedFiles t
         @ ''\<newline>progress SVN r'' @ number (revnum t) @ '' branch '' @ branch t
         @ '' = :'' @ number (last_commit_mark r + 1)
         @ (if desc = [] then [] else '' # merge from'') @ desc
         @ ''\<newline>\<newline>''
     \<and> length kept = min (if parentmark \<noteq> 0 then 15 else 16) (length others)
     \<and> filter (\<lambda>d. d = (Warning, ''too many merge parents'')) (diags r')
         = filter (\<lambda>d. d = (Warning, ''too many merge parents'')) (diags r)
           @ (if length others > (if parentmark \<noteq> 0 then 15 else 16)
              then [(Warning, ''too many merge parents'')] else [])"
proof -
  assume c: "commit e (r, t) = Inr r'"
    and p: "parentmark = (if created (fst (branchAt r (branch t))) \<noteq> 0
                    \<and> marks (fst (branchAt r (branch t))) \<noteq> []
                 then last (marks (fst (branchAt r (branch t)))) else 0)"
    and o: "others = filter (\<lambda>m. m \<noteq> parentmark) (merges t)"
    and k: "kept = take (if parentmark \<noteq> 0 then 15 else 16) others"
    and d: "desc = concat (map (\<lambda>m. '' :'' @ number m) kept)"
  have pm: "fst (commitParent t (last_commit_mark r + 1)
                  (r\<lparr>last_commit_mark := last_commit_mark r + 1\<rparr>)) = parentmark"
    unfolding p by (rule commitParent_fst)
  from commit_emits [OF c]
  have 1: "emitted r r'
       = commitHeader t (last_commit_mark r + 1) (commitMessage e t) @ commitMessage e t @ ''\<newline>''
         @ concat (map (\<lambda>m. ''merge :'' @ number m @ ''\<newline>'') kept)
         @ deletionText (deletedFiles t)
         @ modifiedFiles t
         @ ''\<newline>progress SVN r'' @ number (revnum t) @ '' branch '' @ branch t
         @ '' = :'' @ number (last_commit_mark r + 1)
         @ (if desc = [] then [] else '' # merge from'') @ desc
         @ ''\<newline>\<newline>''"
    unfolding Let_def pm d k o .
  have 2: "length kept = min (if parentmark \<noteq> 0 then 15 else 16) (length others)"
    unfolding k by (simp add: min.commute)
  from commit_tooMany [OF c]
  have 3: "filter (\<lambda>d. d = (Warning, ''too many merge parents'')) (diags r')
         = filter (\<lambda>d. d = (Warning, ''too many merge parents'')) (diags r)
           @ (if length others > (if parentmark \<noteq> 0 then 15 else 16)
              then [(Warning, ''too many merge parents'')] else [])"
    unfolding Let_def pm o .
  from 1 2 3 show ?thesis by blast
qed

theorem merge_parent_cap_witness:
  "emitted (projr scenarioS1) repoManyMerges
     = ''commit refs/heads/master\<newline>mark :2\<newline>committer A <a@x> 1000 -0000\<newline>data 2\<newline>m\<newline>\<newline>merge :2\<newline>merge :3\<newline>merge :4\<newline>merge :5\<newline>merge :6\<newline>merge :7\<newline>merge :8\<newline>merge :9\<newline>merge :10\<newline>merge :11\<newline>merge :12\<newline>merge :13\<newline>merge :14\<newline>merge :15\<newline>merge :16\<newline>\<newline>progress SVN r4 branch master = :2 # merge from :2 :3 :4 :5 :6 :7 :8 :9 :10 :11 :12 :13 :14 :15 :16\<newline>\<newline>''
   \<and> filter (\<lambda>d. d = (Warning, ''too many merge parents'')) (diags repoManyMerges)
     = [(Warning, ''too many merge parents'')]"
proof -
  let ?r = "projr scenarioS1"
  let ?others = "[2, 3, 4, 5, 6, 7, 8, 9, 10, 11, 12, 13, 14, 15, 16, 17, 18] :: int list"
  let ?kept = "[2, 3, 4, 5, 6, 7, 8, 9, 10, 11, 12, 13, 14, 15, 16] :: int list"
  let ?desc = "'' :2 :3 :4 :5 :6 :7 :8 :9 :10 :11 :12 :13 :14 :15 :16''"
  have a: "last_commit_mark ?r + 1 < next_file_mark ?r - 1" "\<not> write_fails env0"
    by code_simp+
  from commit_succeeds [OF a, of txnManyMerges]
  have c: "commit env0 (?r, txnManyMerges) = Inr repoManyMerges"
    by (auto simp: repoManyMerges_def)
  have p: "(1::int) = (if created (fst (branchAt ?r (branch txnManyMerges))) \<noteq> 0
                    \<and> marks (fst (branchAt ?r (branch txnManyMerges))) \<noteq> []
                 then last (marks (fst (branchAt ?r (branch txnManyMerges)))) else 0)"
    by code_simp
  have o: "?others = filter (\<lambda>m. m \<noteq> 1) (merges txnManyMerges)"
    by code_simp
  have k: "?kept = take (if (1::int) \<noteq> 0 then 15 else 16) ?others"
    by code_simp
  have d: "?desc = concat (map (\<lambda>m. '' :'' @ number m) ?kept)"
    by code_simp
  have e: "commitHeader txnManyMerges (last_commit_mark ?r + 1) (commitMessage env0 txnManyMerges)
         @ commitMessage env0 txnManyMerges @ ''\<newline>''
         @ concat (map (\<lambda>m. ''merge :'' @ number m @ ''\<newline>'') ?kept)
         @ deletionText (deletedFiles txnManyMerges)
         @ modifiedFiles txnManyMerges
         @ ''\<newline>progress SVN r'' @ number (revnum txnManyMerges) @ '' branch '' @ branch txnManyMerges
         @ '' = :'' @ number (last_commit_mark ?r + 1)
         @ (if ?desc = [] then [] else '' # merge from'') @ ?desc
         @ ''\<newline>\<newline>''
     = ''commit refs/heads/master\<newline>mark :2\<newline>committer A <a@x> 1000 -0000\<newline>data 2\<newline>m\<newline>\<newline>merge :2\<newline>merge :3\<newline>merge :4\<newline>merge :5\<newline>merge :6\<newline>merge :7\<newline>merge :8\<newline>merge :9\<newline>merge :10\<newline>merge :11\<newline>merge :12\<newline>merge :13\<newline>merge :14\<newline>merge :15\<newline>merge :16\<newline>\<newline>progress SVN r4 branch master = :2 # merge from :2 :3 :4 :5 :6 :7 :8 :9 :10 :11 :12 :13 :14 :15 :16\<newline>\<newline>''"
    by code_simp
  have n: "filter (\<lambda>d. d = (Warning, ''too many merge parents'')) (diags ?r) = []"
    by code_simp
  note T = merge_parent_cap [OF c p o k d]
  from T [THEN conjunct1]
  have 1: "emitted ?r repoManyMerges
     = ''commit refs/heads/master\<newline>mark :2\<newline>committer A <a@x> 1000 -0000\<newline>data 2\<newline>m\<newline>\<newline>merge :2\<newline>merge :3\<newline>merge :4\<newline>merge :5\<newline>merge :6\<newline>merge :7\<newline>merge :8\<newline>merge :9\<newline>merge :10\<newline>merge :11\<newline>merge :12\<newline>merge :13\<newline>merge :14\<newline>merge :15\<newline>merge :16\<newline>\<newline>progress SVN r4 branch master = :2 # merge from :2 :3 :4 :5 :6 :7 :8 :9 :10 :11 :12 :13 :14 :15 :16\<newline>\<newline>''"
    by (rule trans) (rule e)
  from T [THEN conjunct2, THEN conjunct2]
  have 2: "filter (\<lambda>d. d = (Warning, ''too many merge parents'')) (diags repoManyMerges)
     = [(Warning, ''too many merge parents'')]"
    by (simp add: n)
  from 1 2 show ?thesis by blast
qed

text \<open>
  C8, as the specification states it: the checkpoint line would be written during
  \<open>commit\<close>, when the number of committed transactions reaches a multiple of the
  interval. With an interval of 2 the second \<open>newTransaction\<close> writes the line,
  while one transaction has been committed: the line precedes the blob of the second
  transaction, which is written before \<open>commit\<close> is called, and the second
  \<open>commit\<close> writes the commit only.
\<close>

theorem checkpoint_in_newTransaction:
  "scenarioCheckpoint = Inr (''checkpoint\<newline>blob\<newline>mark :1048575\<newline>data 1\<newline>x'',
     ''commit refs/heads/master\<newline>mark :2\<newline>committer  0 -0000\<newline>data 4\<newline>two\<newline>\<newline>M 100644 :1048575 f\<newline>\<newline>progress SVN r2 branch master = :2\<newline>\<newline>'')"
  by code_simp

text \<open>
  C8, amended. \<open>newTransaction\<close> increments \<open>commitCount\<close> and writes
  \<open>checkpoint\<close> exactly when the new count is a multiple of the commit interval
  (10000 when the option is not given; the interval must not be 0); the line thus
  precedes everything the transaction writes. \<open>commit\<close> leaves the count as it is,
  and what it writes starts with the commit object.
\<close>

theorem checkpoint_cadence:
  "startFastImport r = Inr r1 \<Longrightarrow>
   toInt (optionArgument (commit_interval e) ''10000'') \<noteq> 0 \<Longrightarrow>
     (\<exists>t r'. newTransaction e bname prefix n r = Inr (t, r')
        \<and> commitCount r' = commitCount r + 1
        \<and> emitted r1 r'
            = (if (commitCount r + 1) mod toInt (optionArgument (commit_interval e) ''10000'') = 0
               then ''checkpoint\<newline>'' else []))
     \<and> (commit e (r, t0) = Inr r'' \<longrightarrow>
          commitCount r'' = commitCount r \<and> take 7 (emitted r r'') = ''commit '')
     \<and> toInt (optionArgument None ''10000'') = 10000"
proof -
  assume s: "startFastImport r = Inr r1"
    and k: "toInt (optionArgument (commit_interval e) ''10000'') \<noteq> 0"
  have cc: "commitCount r1 = commitCount r"
    using s by (rule commitCount_startFastImport)
  have new: "\<exists>t r'. newTransaction e bname prefix n r = Inr (t, r')
        \<and> commitCount r' = commitCount r + 1
        \<and> emitted r1 r'
            = (if (commitCount r + 1) mod toInt (optionArgument (commit_interval e) ''10000'') = 0
               then ''checkpoint\<newline>'' else [])"
    using k by (simp add: newTransaction_def s Let_def cc say_def fiWrite_def emitted_def)
  have com: "commit e (r, t0) = Inr r'' \<longrightarrow>
          commitCount r'' = commitCount r \<and> take 7 (emitted r r'') = ''commit ''"
  proof
    assume "commit e (r, t0) = Inr r''"
    from commit_written [OF this] obtain x where
      "commitCount r'' = commitCount r" "written r'' = written r @ ''commit '' @ x"
      by blast
    then show "commitCount r'' = commitCount r \<and> take 7 (emitted r r'') = ''commit ''"
      by (simp add: emitted_def)
  qed
  have dflt: "toInt (optionArgument None ''10000'') = 10000"
    by code_simp
  from new com dflt show ?thesis by blast
qed

theorem checkpoint_cadence_witness:
  "\<exists>t r'. newTransaction envInterval2 ''master'' ''/p'' 4 (projr scenarioS1) = Inr (t, r')
      \<and> commitCount r' = 2 \<and> emitted (projr scenarioS1) r' = ''checkpoint\<newline>''"
proof -
  have s: "startFastImport (projr scenarioS1) = Inr (projr scenarioS1)"
    by code_simp
  have k: "toInt (optionArgument (commit_interval envInterval2) ''10000'') = 2"
    by code_simp
  have cc: "commitCount (projr scenarioS1) = 1"
    by code_simp
  have k0: "toInt (optionArgument (commit_interval envInterval2) ''10000'') \<noteq> 0"
    by (simp add: k)
  from checkpoint_cadence [OF s k0, of "''master''" "''/p''" 4]
  show ?thesis by (simp add: k cc)
qed

text \<open>
  C9, at the input where the source departs from it: deleting the branch master of a
  new repository at revision 2. The branch has \<open>created = 1\<close> and no marks, so the
  test for the backup calls \<open>marks.last()\<close> on an empty vector.
\<close>

theorem resetBranch_master_without_marks:
  "deleteBranch ''master'' 2 (newRepository ''R'' [''master'']) = Inl VectorOutOfRange"
  by code_simp

text \<open>
  C10. Looking up a branch that is not in the registry: \<open>markFrom\<close> returns -1 and
  appends a default entry (\<open>created = 0\<close>, no commits, no marks) for the name, and
  changes nothing else. So does \<open>noteCopyFromBranch\<close> from such a branch (other than
  the branch of the transaction itself, for which it returns before the lookup), which
  only adds its warning, and so does \<open>createBranch\<close> from such a branch after
  \<open>startFastImport\<close>, which reports the failure; counters, tags and the other
  branches stay as they are.
\<close>

theorem lookup_inserts_branch:
  "map_of (branches r) bfrom = None \<Longrightarrow>
     markFrom bfrom n desc r
       = Inr (- 1, desc, r\<lparr>branches := branches r @ [(bfrom, defaultBranch)]\<rparr>)
     \<and> map_of (branches r @ [(bfrom, defaultBranch)]) = (map_of (branches r))(bfrom \<mapsto> defaultBranch)
     \<and> defaultBranch = \<lparr>created = 0, commits = [], marks = []\<rparr>
     \<and> (branch t \<noteq> bfrom \<longrightarrow>
          noteCopyFromBranch bfrom n (r, t)
            = Inr (say Warning ''is copying from branch''
                     (r\<lparr>branches := branches r @ [(bfrom, defaultBranch)]\<rparr>), t))
     \<and> (startFastImport r = Inr r1 \<longrightarrow>
          createBranch bname k bfrom n r
            = Inr (EXIT_FAILURE,
                   say Critical ''is branching from branch''
                     (r1\<lparr>branches := branches r1 @ [(bfrom, defaultBranch)]\<rparr>))
          \<and> branches r1 = branches r \<and> annotatedTags r1 = annotatedTags r
          \<and> commitCount r1 = commitCount r
          \<and> outstandingTransactions r1 = outstandingTransactions r
          \<and> last_commit_mark r1 = last_commit_mark r \<and> next_file_mark r1 = next_file_mark r)"
proof -
  assume u: "map_of (branches r) bfrom = None"
  have a: "markFrom bfrom n desc r
       = Inr (- 1, desc, r\<lparr>branches := branches r @ [(bfrom, defaultBranch)]\<rparr>)"
    using u by (rule markFrom_unknown)
  have b: "map_of (branches r @ [(bfrom, defaultBranch)]) = (map_of (branches r))(bfrom \<mapsto> defaultBranch)"
    using u by (rule map_of_snoc)
  have c: "branch t \<noteq> bfrom \<longrightarrow>
          noteCopyFromBranch bfrom n (r, t)
            = Inr (say Warning ''is copying from branch''
                     (r\<lparr>branches := branches r @ [(bfrom, defaultBranch)]\<rparr>), t)"
    by (simp add: noteCopyFromBranch_def Let_def markFrom_unknown [OF u])
  have d: "startFastImport r = Inr r1 \<longrightarrow>
          createBranch bname k bfrom n r
            = Inr (EXIT_FAILURE,
                   say Critical ''is branching from branch''
                     (r1\<lparr>branches := branches r1 @ [(bfrom, defaultBranch)]\<rparr>))
          \<and> branches r1 = branches r \<and> annotatedTags r1 = annotatedTags r
          \<and> commitCount r1 = commitCount r
          \<and> outstandingTransactions r1 = outstandingTransactions r
          \<and> last_commit_mark r1 = last_commit_mark r \<and> next_file_mark r1 = next_file_mark r"
  proof
    assume s: "startFastImport r = Inr r1"
    note f = startFastImport_fields [OF s]
    from f u have u1: "map_of (branches r1) bfrom = None" by simp
    have "createBranch bname k bfrom n r
            = Inr (EXIT_FAILURE,
                   say Critical ''is branching from branch''
                     (r1\<lparr>branches := branches r1 @ [(bfrom, defaultBranch)]\<rparr>))"
      by (simp add: createBranch_def s markFrom_unknown [OF u1])
    with f show "createBranch bname k bfrom n r
            = Inr (EXIT_FAILURE,
                   say Critical ''is branching from branch''
                     (r1\<lparr>branches := branches r1 @ [(bfrom, defaultBranch)]\<rparr>))
          \<and> branches r1 = branches r \<and> annotatedTags r1 = annotatedTags r
          \<and> commitCount r1 = commitCount r
          \<and> outstandingTransactions r1 = outstandingTransactions r
          \<and> last_commit_mark r1 = last_commit_mark r \<and> next_file_mark r1 = next_file_mark r"
      by blast
  qed
  from a b c d show ?thesis by (simp add: defaultBranch_def)
qed

theorem lookup_inserts_branch_witness:
  "markFrom ''nowhere'' 3 [] (newRepository ''R'' [''master''])
     = Inr (- 1, [], (newRepository ''R'' [''master''])\<lparr>branches :=
             [(''master'', \<lparr>created = 1, commits = [], marks = []\<rparr>),
              (''nowhere'', \<lparr>created = 0, commits = [], marks = []\<rparr>)]\<rparr>)
   \<and> noteCopyFromBranch ''nowhere'' 3 (newRepository ''R'' [''master''], txnS1)
     = Inr (say Warning ''is copying from branch''
              ((newRepository ''R'' [''master''])\<lparr>branches :=
                 [(''master'', \<lparr>created = 1, commits = [], marks = []\<rparr>),
                  (''nowhere'', \<lparr>created = 0, commits = [], marks = []\<rparr>)]\<rparr>), txnS1)
   \<and> map_sum id fst (createBranch ''b'' 5 ''nowhere'' 3 (newRepository ''R'' [''master'']))
     = Inr EXIT_FAILURE"
proof -
  let ?r = "newRepository ''R'' [''master'']"
  have u: "map_of (branches ?r) ''nowhere'' = None"
    by code_simp
  have b: "branches ?r = [(''master'', \<lparr>created = 1, commits = [], marks = []\<rparr>)]"
    by code_simp
  have nb: "branch txnS1 \<noteq> ''nowhere''"
    by code_simp
  have s: "startFastImport ?r = Inr (projr (startFastImport ?r))"
    by code_simp
  note T = lookup_inserts_branch [OF u, of 3 "[]" txnS1 "projr (startFastImport ?r)" "''b''" 5]
  from T [THEN conjunct1]
  have 1: "markFrom ''nowhere'' 3 [] ?r
     = Inr (- 1, [], ?r\<lparr>branches :=
             [(''master'', \<lparr>created = 1, commits = [], marks = []\<rparr>),
              (''nowhere'', \<lparr>created = 0, commits = [], marks = []\<rparr>)]\<rparr>)"
    by (simp add: b defaultBranch_def)
  from T [THEN conjunct2, THEN conjunct2, THEN conjunct2, THEN conjunct1, rule_format, OF nb]
  have 2: "noteCopyFromBranch ''nowhere'' 3 (?r, txnS1)
     = Inr (say Warning ''is copying from branch''
              (?r\<lparr>branches :=
                 [(''master'', \<lparr>created = 1, commits = [], marks = []\<rparr>),
                  (''nowhere'', \<lparr>created = 0, commits = [], marks = []\<rparr>)]\<rparr>), txnS1)"
    by (simp add: b defaultBranch_def)
  from T [THEN conjunct2, THEN conjunct2, THEN conjunct2, THEN conjunct2, rule_format, OF s,
      THEN conjunct1]
  have 3: "map_sum id fst (createBranch ''b'' 5 ''nowhere'' 3 ?r) = Inr EXIT_FAILURE"
    by simp
  from 1 2 3 show ?thesis by blast
qed

end
